theory Spec2Isabelle
  imports Main "HOL-Library.Word"
begin

section \<open>The array core of xchainer (\<^verbatim>\<open>xchainer/array.cc\<close>)\<close>

text \<open>
  The development embeds \<^verbatim>\<open>xchainer/array.cc\<close>: the \<^verbatim>\<open>Array\<close> constructor with its
  device-conditional storage, the element-wise kernels \<^verbatim>\<open>Add<T>\<close> and \<^verbatim>\<open>Mul<T>\<close>, their
  dtype dispatch, the four public arithmetic entry points and the graph dump.

  Memory is an explicit store. Every heap object the code creates (byte buffers,
  \<^verbatim>\<open>Array\<close> objects, \<^verbatim>\<open>ArrayNode\<close>s, \<^verbatim>\<open>OpNode\<close>s) lives in a list of the store and is
  identified by its index there, so an index is the object's identity, a fresh object
  is the one appended last, and a \<^verbatim>\<open>shared_ptr\<close> to an \<^verbatim>\<open>Array\<close> or to a node is an
  index. A pointer to bytes is a buffer and a byte position in it, so two pointers can
  point into one buffer at different positions. Releasing an object (the last
  \<^verbatim>\<open>shared_ptr\<close> dropping it) is not modelled: the store keeps every object ever
  allocated.
\<close>

subsection \<open>Dtype, Shape, Device\<close>

datatype Dtype = kBool | kInt8 | kInt16 | kInt32 | kInt64 | kUInt8 | kFloat32 | kFloat64

text \<open>
  Modelled from the spec: \<^verbatim>\<open>GetElementSize\<close> (\<^verbatim>\<open>xchainer/dtype.h\<close> is not part of the
  sources). "Each [dtype] maps to exactly one element byte width"; the widths are those
  of the C++ types the dispatch switch instantiates the kernels with.
\<close>

fun GetElementSize :: "Dtype \<Rightarrow> nat" where
  "GetElementSize kBool = 1"
| "GetElementSize kInt8 = 1"
| "GetElementSize kInt16 = 2"
| "GetElementSize kInt32 = 4"
| "GetElementSize kInt64 = 8"
| "GetElementSize kUInt8 = 1"
| "GetElementSize kFloat32 = 4"
| "GetElementSize kFloat64 = 8"

text \<open>
  Modelled from the spec: \<^verbatim>\<open>Shape\<close> (\<^verbatim>\<open>xchainer/shape.h\<close> is not part of the sources).
  "Ordered sequence of non-negative integer extents; \<^verbatim>\<open>total_size()\<close> = product of
  extents (1 for an empty/scalar shape). Equality is element-wise." The product is
  taken in the natural numbers: overflow of the 64-bit product is not modelled.
\<close>

type_synonym Shape = "nat list"

definition total_size :: "Shape \<Rightarrow> nat" where
  "total_size s = prod_list s"

text \<open>
  Modelled from the spec: \<^verbatim>\<open>Device\<close> (\<^verbatim>\<open>xchainer/device.h\<close> is not part of the sources).
  The code only compares the current device with \<^verbatim>\<open>MakeDevice("cuda")\<close>.
\<close>

datatype Device = Cpu | Cuda

subsection \<open>Errors\<close>

text \<open>
  \<open>DtypeMismatch\<close> and \<open>ShapeMismatch\<close> are the exceptions of \<^verbatim>\<open>CheckEqual\<close>,
  \<open>DeviceAllocationFailure\<close> the one of \<^verbatim>\<open>cuda::CheckError\<close>. \<open>AssertionFailure\<close> is
  \<^verbatim>\<open>assert(0)\<close>, \<open>LengthError\<close> the \<^verbatim>\<open>std::length_error\<close> of a string of negative length.
  \<open>MemoryFault\<close> stands for what C++ leaves undefined: a read or write outside a live
  buffer or through a reference to no object, and the read of a \<^verbatim>\<open>bool\<close> from a byte
  that is neither 0 nor 1. The model stops there; what the compiled code does is not
  modelled.
\<close>

datatype error =
    DtypeMismatch
  | ShapeMismatch
  | DeviceAllocationFailure
  | AssertionFailure
  | LengthError
  | MemoryFault

subsection \<open>The store\<close>

type_synonym byte = "8 word"

text \<open>
  A pointer to bytes (\<^verbatim>\<open>void*\<close>, \<^verbatim>\<open>T*\<close>, \<^verbatim>\<open>shared_ptr<void>\<close>): the buffer it points
  into, as the index of the buffer in the store, and the byte position in that buffer.
  What \<^verbatim>\<open>make_unique\<close> and \<^verbatim>\<open>cudaMallocManaged\<close> return points to position 0 of a new
  buffer; the caller of the constructor can pass a pointer to any position (a
  \<^verbatim>\<open>shared_ptr\<close> may point into the middle of the allocation it owns).
\<close>

type_synonym ptr = "nat \<times> nat"

text \<open>
  \<^verbatim>\<open>Array\<close>: the fields \<^verbatim>\<open>shape_\<close>, \<^verbatim>\<open>is_contiguous_\<close>, \<^verbatim>\<open>dtype_\<close>, \<^verbatim>\<open>data_\<close>, \<^verbatim>\<open>offset_\<close>,
  \<^verbatim>\<open>node_\<close> under the names of their accessors. \<open>data\<close> is a pointer to bytes,
  \<open>node\<close> the index of an \<^verbatim>\<open>ArrayNode\<close>.
\<close>

record Array =
  shape :: Shape
  is_contiguous :: bool
  dtype :: Dtype
  data :: ptr
  offset :: int
  node :: nat

text \<open>
  Modelled from the spec: \<^verbatim>\<open>ArrayNode\<close> and \<^verbatim>\<open>OpNode\<close> (\<^verbatim>\<open>xchainer/array_node.h\<close>
  and \<^verbatim>\<open>xchainer/op_node.h\<close> are not part of the sources). An \<^verbatim>\<open>ArrayNode\<close> "holds an
  optional reference to the single OpNode that produced it" (\<^verbatim>\<open>next_node()\<close>); an
  \<^verbatim>\<open>OpNode\<close> is "a symbolic operation tag plus an ordered sequence of shared references
  to the operand ArrayNodes" (\<^verbatim>\<open>name()\<close>, \<^verbatim>\<open>next_nodes()\<close>).
\<close>

type_synonym ArrayNode = "nat option"

record OpNode =
  name :: string
  next_nodes :: "nat list"

record State =
  arrays :: "Array list"
  bufs :: "byte list list"
  anodes :: "ArrayNode list"
  onodes :: "OpNode list"
  device :: Device

text \<open>
  What the build and the machine fix: whether \<^verbatim>\<open>XCHAINER_ENABLE_CUDA\<close> is defined,
  whether \<^verbatim>\<open>cudaMallocManaged\<close> succeeds for a size, and the floating-point unit: the
  sum and the product of two \<^verbatim>\<open>float\<close>s and of two \<^verbatim>\<open>double\<close>s, on their bit patterns.
\<close>

record Env =
  enable_cuda :: bool
  cuda_malloc_ok :: "nat \<Rightarrow> bool"
  float_add :: "32 word \<Rightarrow> 32 word \<Rightarrow> 32 word"
  float_mul :: "32 word \<Rightarrow> 32 word \<Rightarrow> 32 word"
  double_add :: "64 word \<Rightarrow> 64 word \<Rightarrow> 64 word"
  double_mul :: "64 word \<Rightarrow> 64 word \<Rightarrow> 64 word"

text \<open>A call returns its value or the exception it throws, and the store it leaves.\<close>

type_synonym 'a result = "(error + 'a) \<times> State"

definition bindM :: "(State \<Rightarrow> 'a result) \<Rightarrow> ('a \<Rightarrow> State \<Rightarrow> 'b result) \<Rightarrow> State \<Rightarrow> 'b result" where
  "bindM m f st = (case m st of (Inl e, st') \<Rightarrow> (Inl e, st') | (Inr x, st') \<Rightarrow> f x st')"

definition get_array :: "State \<Rightarrow> nat \<Rightarrow> Array option" where
  "get_array st a = (if a < length (arrays st) then Some (arrays st ! a) else None)"

definition get_buf :: "State \<Rightarrow> nat \<Rightarrow> byte list option" where
  "get_buf st p = (if p < length (bufs st) then Some (bufs st ! p) else None)"

definition get_anode :: "State \<Rightarrow> nat \<Rightarrow> ArrayNode option" where
  "get_anode st n = (if n < length (anodes st) then Some (anodes st ! n) else None)"

definition get_onode :: "State \<Rightarrow> nat \<Rightarrow> OpNode option" where
  "get_onode st p = (if p < length (onodes st) then Some (onodes st ! p) else None)"

text \<open>
  \<^verbatim>\<open>std::make_unique<uint8_t[]>(n)\<close>: a new buffer of \<open>n\<close> zero bytes, and the pointer to
  its first byte.
\<close>

definition make_unique :: "nat \<Rightarrow> State \<Rightarrow> ptr result" where
  "make_unique n st = (Inr (length (bufs st), 0), st\<lparr>bufs := bufs st @ [replicate n 0]\<rparr>)"

text \<open>\<^verbatim>\<open>std::make_shared<ArrayNode>()\<close>: a new node with no producer.\<close>

definition make_ArrayNode :: "State \<Rightarrow> nat result" where
  "make_ArrayNode st = (Inr (length (anodes st)), st\<lparr>anodes := anodes st @ [None]\<rparr>)"

text \<open>\<^verbatim>\<open>std::make_shared<OpNode>(name, next_nodes)\<close>.\<close>

definition make_OpNode :: "string \<Rightarrow> nat list \<Rightarrow> State \<Rightarrow> nat result" where
  "make_OpNode nm ns st =
     (Inr (length (onodes st)), st\<lparr>onodes := onodes st @ [\<lparr>name = nm, next_nodes = ns\<rparr>]\<rparr>)"

text \<open>
  Modelled from the spec: \<^verbatim>\<open>Array::CreateNewNode\<close> (\<^verbatim>\<open>xchainer/array.h\<close> is not part of
  the sources). "Allocate a new value node bound to the output Array (replacing
  whatever node it had)": the Array's \<open>node\<close> becomes a new node, which is returned.
\<close>

definition CreateNewNode :: "nat \<Rightarrow> State \<Rightarrow> nat result" where
  "CreateNewNode a st =
     (case get_array st a of
        None \<Rightarrow> (Inl MemoryFault, st)
      | Some arr \<Rightarrow>
          bindM make_ArrayNode
            (\<lambda>n st'. (Inr n, st'\<lparr>arrays := (arrays st')[a := arr\<lparr>node := n\<rparr>]\<rparr>)) st)"

text \<open>
  Modelled from the spec: \<^verbatim>\<open>ArrayNode::set_next_node\<close>. "Bind the output's new node's
  producer to this edge record."
\<close>

definition set_next_node :: "nat \<Rightarrow> nat \<Rightarrow> State \<Rightarrow> unit result" where
  "set_next_node n p st =
     (if n < length (anodes st) then (Inr (), st\<lparr>anodes := (anodes st)[n := Some p]\<rparr>)
      else (Inl MemoryFault, st))"

text \<open>
  Modelled from the spec: \<^verbatim>\<open>CheckEqual\<close> on dtypes and on shapes (declared outside the
  sources). "dtype of left operand must equal dtype of right operand; mismatch \<open>\<rightarrow>\<close>
  DtypeMismatch"; "shape of left operand must equal shape of right operand exactly;
  mismatch \<open>\<rightarrow>\<close> ShapeMismatch".
\<close>

definition CheckEqual_dtype :: "Dtype \<Rightarrow> Dtype \<Rightarrow> State \<Rightarrow> unit result" where
  "CheckEqual_dtype l r st = (if l = r then (Inr (), st) else (Inl DtypeMismatch, st))"

definition CheckEqual_shape :: "Shape \<Rightarrow> Shape \<Rightarrow> State \<Rightarrow> unit result" where
  "CheckEqual_shape l r st = (if l = r then (Inr (), st) else (Inl ShapeMismatch, st))"

text \<open>
  Modelled from the spec: \<^verbatim>\<open>Array::total_bytes\<close> (\<^verbatim>\<open>xchainer/array.h\<close>):
  "\<^verbatim>\<open>shape.total_size() * element_size(dtype)\<close>".
\<close>

definition total_bytes :: "Array \<Rightarrow> nat" where
  "total_bytes a = total_size (shape a) * GetElementSize (dtype a)"

subsection \<open>Construction\<close>

text \<open>
  \<^verbatim>\<open>AllocateCudaManaged(src_ptr, size)\<close>. With CUDA: \<^verbatim>\<open>cudaMallocManaged\<close> (its error is
  thrown by \<^verbatim>\<open>cuda::CheckError\<close>), then \<^verbatim>\<open>memcpy\<close> of the \<open>size\<close> bytes at \<^verbatim>\<open>src_ptr\<close>.
  Without CUDA: \<^verbatim>\<open>assert(0)\<close>, which aborts; a build with \<^verbatim>\<open>NDEBUG\<close>, where the
  assertion is compiled away and a null pointer is returned, is not modelled.
\<close>

definition AllocateCudaManaged :: "Env \<Rightarrow> ptr \<Rightarrow> nat \<Rightarrow> State \<Rightarrow> ptr result" where
  "AllocateCudaManaged env src_ptr sz st =
     (if enable_cuda env then
        if \<not> cuda_malloc_ok env sz then (Inl DeviceAllocationFailure, st)
        else
          (case get_buf st (fst src_ptr) of
             None \<Rightarrow> (Inl MemoryFault, st)
           | Some src \<Rightarrow>
               if snd src_ptr + sz \<le> length src
               then (Inr (length (bufs st), 0),
                     st\<lparr>bufs := bufs st @ [take sz (drop (snd src_ptr) src)]\<rparr>)
               else (Inl MemoryFault, st))
      else (Inl AssertionFailure, st))"

text \<open>
  \<^verbatim>\<open>Array::Array(shape, dtype, data, offset)\<close>. The member initialisers run first, so the
  node exists before the device is read. The new \<^verbatim>\<open>Array\<close> object is appended to the
  store last and its index is returned.
\<close>

definition Array_ctor :: "Env \<Rightarrow> Shape \<Rightarrow> Dtype \<Rightarrow> ptr \<Rightarrow> int \<Rightarrow> State \<Rightarrow> nat result" where
  "Array_ctor env shp dt dat off =
     bindM make_ArrayNode (\<lambda>n st.
       let this = \<lparr>shape = shp, is_contiguous = True, dtype = dt, data = dat, offset = off, node = n\<rparr>
       in if device st = Cuda then
            bindM (AllocateCudaManaged env dat (total_size shp * GetElementSize dt))
              (\<lambda>p st'. (Inr (length (arrays st')), st'\<lparr>arrays := arrays st' @ [this\<lparr>data := p\<rparr>]\<rparr>)) st
          else (Inr (length (arrays st)), st\<lparr>arrays := arrays st @ [this]\<rparr>))"

subsection \<open>The element types of the kernels\<close>

text \<open>
  The kernels are templates over the element type \<^verbatim>\<open>T\<close>. What a kernel uses of \<^verbatim>\<open>T\<close> is
  its size, which bytes are a value of \<^verbatim>\<open>T\<close> at all (\<open>valid\<close>), how a \<^verbatim>\<open>T\<close> is read from
  such bytes and written to bytes, and \<^verbatim>\<open>+\<close> and \<^verbatim>\<open>*\<close> on it. Bytes are little-endian, as
  on the hosts CUDA runs on.
\<close>

record 'a ctype =
  sizeof :: nat
  valid :: "byte list \<Rightarrow> bool"
  load :: "byte list \<Rightarrow> 'a"
  store :: "'a \<Rightarrow> byte list"
  c_add :: "'a \<Rightarrow> 'a \<Rightarrow> 'a"
  c_mul :: "'a \<Rightarrow> 'a \<Rightarrow> 'a"

fun le_nat :: "byte list \<Rightarrow> nat" where
  "le_nat [] = 0"
| "le_nat (b # bs) = unat b + 256 * le_nat bs"

fun le_bytes :: "nat \<Rightarrow> nat \<Rightarrow> byte list" where
  "le_bytes 0 v = []"
| "le_bytes (Suc k) v = word_of_nat (v mod 256) # le_bytes k (v div 256)"

definition load_word :: "byte list \<Rightarrow> 'a::len word" where
  "load_word bs = word_of_nat (le_nat bs)"

definition store_word :: "nat \<Rightarrow> 'a::len word \<Rightarrow> byte list" where
  "store_word k x = le_bytes k (unat x)"

text \<open>
  \<^verbatim>\<open>bool\<close>: the byte 0 is \<^verbatim>\<open>false\<close> and the byte 1 is \<^verbatim>\<open>true\<close>; no other byte is a
  \<^verbatim>\<open>bool\<close>, and reading one as a \<^verbatim>\<open>bool\<close> is undefined. Both operands are promoted to
  \<^verbatim>\<open>int\<close>, and the \<^verbatim>\<open>int\<close> result is converted back (non-zero is \<^verbatim>\<open>true\<close>).
\<close>

definition T_bool :: "bool ctype" where
  "T_bool =
     \<lparr>sizeof = 1,
      valid = (\<lambda>bs. bs = [0] \<or> bs = [1]),
      load = (\<lambda>bs. le_nat bs \<noteq> 0),
      store = (\<lambda>b. [if b then 1 else 0]),
      c_add = (\<lambda>x y. (of_bool x + of_bool y :: int) \<noteq> 0),
      c_mul = (\<lambda>x y. (of_bool x * of_bool y :: int) \<noteq> 0)\<rparr>"

text \<open>
  The integer types: every byte pattern is a value. \<^verbatim>\<open>int8_t\<close>, \<^verbatim>\<open>int16_t\<close> and
  \<^verbatim>\<open>uint8_t\<close> operands are promoted to \<^verbatim>\<open>int\<close>, where the sum and the product cannot
  overflow, and the result is converted to \<^verbatim>\<open>T\<close> modulo \<open>2 ^ w\<close>. For \<^verbatim>\<open>int32_t\<close> and
  \<^verbatim>\<open>int64_t\<close> the overflow of \<^verbatim>\<open>+\<close> and \<^verbatim>\<open>*\<close>, which C++ leaves undefined, wraps around as
  on the two's-complement machine.
\<close>

definition T_int8_t :: "8 word ctype" where
  "T_int8_t =
     \<lparr>sizeof = 1, valid = (\<lambda>bs. True), load = load_word, store = store_word 1,
      c_add = (\<lambda>x y. word_of_int (sint x + sint y)),
      c_mul = (\<lambda>x y. word_of_int (sint x * sint y))\<rparr>"

definition T_int16_t :: "16 word ctype" where
  "T_int16_t =
     \<lparr>sizeof = 2, valid = (\<lambda>bs. True), load = load_word, store = store_word 2,
      c_add = (\<lambda>x y. word_of_int (sint x + sint y)),
      c_mul = (\<lambda>x y. word_of_int (sint x * sint y))\<rparr>"

definition T_int32_t :: "32 word ctype" where
  "T_int32_t =
     \<lparr>sizeof = 4, valid = (\<lambda>bs. True), load = load_word, store = store_word 4,
      c_add = (\<lambda>x y. word_of_int (sint x + sint y)),
      c_mul = (\<lambda>x y. word_of_int (sint x * sint y))\<rparr>"

definition T_int64_t :: "64 word ctype" where
  "T_int64_t =
     \<lparr>sizeof = 8, valid = (\<lambda>bs. True), load = load_word, store = store_word 8,
      c_add = (\<lambda>x y. word_of_int (sint x + sint y)),
      c_mul = (\<lambda>x y. word_of_int (sint x * sint y))\<rparr>"

definition T_uint8_t :: "8 word ctype" where
  "T_uint8_t =
     \<lparr>sizeof = 1, valid = (\<lambda>bs. True), load = load_word, store = store_word 1,
      c_add = (\<lambda>x y. word_of_int (uint x + uint y)),
      c_mul = (\<lambda>x y. word_of_int (uint x * uint y))\<rparr>"

text \<open>
  \<^verbatim>\<open>float\<close> and \<^verbatim>\<open>double\<close>: bit patterns, every one of which is a value, added and
  multiplied by the machine.
\<close>

definition T_float :: "Env \<Rightarrow> 32 word ctype" where
  "T_float env =
     \<lparr>sizeof = 4, valid = (\<lambda>bs. True), load = load_word, store = store_word 4,
      c_add = float_add env, c_mul = float_mul env\<rparr>"

definition T_double :: "Env \<Rightarrow> 64 word ctype" where
  "T_double env =
     \<lparr>sizeof = 8, valid = (\<lambda>bs. True), load = load_word, store = store_word 8,
      c_add = double_add env, c_mul = double_mul env\<rparr>"

subsection \<open>The kernels\<close>

text \<open>
  \<^verbatim>\<open>p[i]\<close> for a \<^verbatim>\<open>T*\<close> \<open>p\<close>: the \<open>sizeof T\<close> bytes of the buffer of \<open>p\<close> from the byte
  \<open>i * sizeof T\<close> after the position of \<open>p\<close> on. An access that does not lie within the
  buffer is a fault, and so is the read of bytes that are not a value of \<^verbatim>\<open>T\<close>.
\<close>

definition read_elem :: "'a ctype \<Rightarrow> State \<Rightarrow> ptr \<Rightarrow> nat \<Rightarrow> 'a option" where
  "read_elem T st p i =
     (case get_buf st (fst p) of
        None \<Rightarrow> None
      | Some buf \<Rightarrow>
          if snd p + i * sizeof T + sizeof T \<le> length buf
             \<and> valid T (take (sizeof T) (drop (snd p + i * sizeof T) buf))
          then Some (load T (take (sizeof T) (drop (snd p + i * sizeof T) buf)))
          else None)"

definition write_elem :: "'a ctype \<Rightarrow> State \<Rightarrow> ptr \<Rightarrow> nat \<Rightarrow> 'a \<Rightarrow> State option" where
  "write_elem T st p i x =
     (case get_buf st (fst p) of
        None \<Rightarrow> None
      | Some buf \<Rightarrow>
          if snd p + i * sizeof T + sizeof T \<le> length buf
          then Some (st\<lparr>bufs := (bufs st)
                 [fst p := take (snd p + i * sizeof T) buf @ store T x
                           @ drop (snd p + i * sizeof T + sizeof T) buf]\<rparr>)
          else None)"

text \<open>
  The loop of both kernels,
  \<^verbatim>\<open>for (i = 0; i < total_size; i++) odata[i] = ldata[i] OP rdata[i];\<close>
  with \<open>f\<close> for \<^verbatim>\<open>OP\<close>. Each iteration reads the store as the iterations before it left
  it.
\<close>

function elementwise_loop ::
  "'a ctype \<Rightarrow> ('a \<Rightarrow> 'a \<Rightarrow> 'a) \<Rightarrow> ptr \<Rightarrow> ptr \<Rightarrow> ptr \<Rightarrow> nat \<Rightarrow> nat \<Rightarrow> State \<Rightarrow> unit result" where
  "elementwise_loop T f ldata rdata odata i n st =
     (if i < n then
        (case (read_elem T st ldata i, read_elem T st rdata i) of
           (Some x, Some y) \<Rightarrow>
             (case write_elem T st odata i (f x y) of
                Some st' \<Rightarrow> elementwise_loop T f ldata rdata odata (Suc i) n st'
              | None \<Rightarrow> (Inl MemoryFault, st))
         | _ \<Rightarrow> (Inl MemoryFault, st))
      else (Inr (), st))"
  by pat_completeness auto
termination
  by (relation "measure (\<lambda>(T, f, ldata, rdata, odata, i, n, st). n - i)") auto

text \<open>
  \<^verbatim>\<open>Array::Add<T>(rhs, out)\<close> and \<^verbatim>\<open>Array::Mul<T>(rhs, out)\<close>. \<open>this\<close>, \<open>rhs\<close> and \<open>out\<close>
  are \<^verbatim>\<open>Array\<close> objects of the store, and may be the same object.
\<close>

definition Add_T :: "'a ctype \<Rightarrow> nat \<Rightarrow> nat \<Rightarrow> nat \<Rightarrow> State \<Rightarrow> unit result" where
  "Add_T T this rhs out st =
     (case (get_array st this, get_array st rhs, get_array st out) of
        (Some lhs, Some r, Some ou) \<Rightarrow>
          bindM (elementwise_loop T (c_add T) (data lhs) (data r) (data ou) 0 (total_size (shape lhs)))
            (\<lambda>_. let lhs_node = node lhs; rhs_node = node r in
               bindM (CreateNewNode out) (\<lambda>out_node.
               bindM (make_OpNode ''add'' [lhs_node, rhs_node]) (\<lambda>op_node.
               set_next_node out_node op_node))) st
      | _ \<Rightarrow> (Inl MemoryFault, st))"

definition Mul_T :: "'a ctype \<Rightarrow> nat \<Rightarrow> nat \<Rightarrow> nat \<Rightarrow> State \<Rightarrow> unit result" where
  "Mul_T T this rhs out st =
     (case (get_array st this, get_array st rhs, get_array st out) of
        (Some lhs, Some r, Some ou) \<Rightarrow>
          bindM (elementwise_loop T (c_mul T) (data lhs) (data r) (data ou) 0 (total_size (shape lhs)))
            (\<lambda>_. let lhs_node = node lhs; rhs_node = node r in
               bindM (CreateNewNode out) (\<lambda>out_node.
               bindM (make_OpNode ''mul'' [lhs_node, rhs_node]) (\<lambda>op_node.
               set_next_node out_node op_node))) st
      | _ \<Rightarrow> (Inl MemoryFault, st))"

subsection \<open>The entry points\<close>

text \<open>
  \<^verbatim>\<open>Array::Add(rhs, out)\<close> and \<^verbatim>\<open>Array::Mul(rhs, out)\<close>: the two checks, then the switch
  on \<^verbatim>\<open>dtype_\<close>. The \<^verbatim>\<open>default\<close> branch has no counterpart: \<open>Dtype\<close> has the eight tags only.
\<close>

definition Add_out :: "Env \<Rightarrow> nat \<Rightarrow> nat \<Rightarrow> nat \<Rightarrow> State \<Rightarrow> unit result" where
  "Add_out env this rhs out st =
     (case (get_array st this, get_array st rhs) of
        (Some lhs, Some r) \<Rightarrow>
          bindM (CheckEqual_dtype (dtype lhs) (dtype r)) (\<lambda>_.
          bindM (CheckEqual_shape (shape lhs) (shape r)) (\<lambda>_.
            case dtype lhs of
              kBool \<Rightarrow> Add_T T_bool this rhs out
            | kInt8 \<Rightarrow> Add_T T_int8_t this rhs out
            | kInt16 \<Rightarrow> Add_T T_int16_t this rhs out
            | kInt32 \<Rightarrow> Add_T T_int32_t this rhs out
            | kInt64 \<Rightarrow> Add_T T_int64_t this rhs out
            | kUInt8 \<Rightarrow> Add_T T_uint8_t this rhs out
            | kFloat32 \<Rightarrow> Add_T (T_float env) this rhs out
            | kFloat64 \<Rightarrow> Add_T (T_double env) this rhs out)) st
      | _ \<Rightarrow> (Inl MemoryFault, st))"

definition Mul_out :: "Env \<Rightarrow> nat \<Rightarrow> nat \<Rightarrow> nat \<Rightarrow> State \<Rightarrow> unit result" where
  "Mul_out env this rhs out st =
     (case (get_array st this, get_array st rhs) of
        (Some lhs, Some r) \<Rightarrow>
          bindM (CheckEqual_dtype (dtype lhs) (dtype r)) (\<lambda>_.
          bindM (CheckEqual_shape (shape lhs) (shape r)) (\<lambda>_.
            case dtype lhs of
              kBool \<Rightarrow> Mul_T T_bool this rhs out
            | kInt8 \<Rightarrow> Mul_T T_int8_t this rhs out
            | kInt16 \<Rightarrow> Mul_T T_int16_t this rhs out
            | kInt32 \<Rightarrow> Mul_T T_int32_t this rhs out
            | kInt64 \<Rightarrow> Mul_T T_int64_t this rhs out
            | kUInt8 \<Rightarrow> Mul_T T_uint8_t this rhs out
            | kFloat32 \<Rightarrow> Mul_T (T_float env) this rhs out
            | kFloat64 \<Rightarrow> Mul_T (T_double env) this rhs out)) st
      | _ \<Rightarrow> (Inl MemoryFault, st))"

text \<open>
  \<^verbatim>\<open>Array::Add(rhs)\<close> and \<^verbatim>\<open>Array::Mul(rhs)\<close>: \<^verbatim>\<open>out\<close> is constructed from a new zeroed
  buffer of \<^verbatim>\<open>total_bytes()\<close> bytes, with the constructor's default offset (taken to be
  0), before the in-place form and its checks run.
\<close>

definition Add :: "Env \<Rightarrow> nat \<Rightarrow> nat \<Rightarrow> State \<Rightarrow> nat result" where
  "Add env this rhs st =
     (case get_array st this of
        None \<Rightarrow> (Inl MemoryFault, st)
      | Some lhs \<Rightarrow>
          bindM (make_unique (total_bytes lhs)) (\<lambda>p.
          bindM (Array_ctor env (shape lhs) (dtype lhs) p 0) (\<lambda>out.
          bindM (Add_out env this rhs out) (\<lambda>_ st'. (Inr out, st')))) st)"

definition Mul :: "Env \<Rightarrow> nat \<Rightarrow> nat \<Rightarrow> State \<Rightarrow> nat result" where
  "Mul env this rhs st =
     (case get_array st this of
        None \<Rightarrow> (Inl MemoryFault, st)
      | Some lhs \<Rightarrow>
          bindM (make_unique (total_bytes lhs)) (\<lambda>p.
          bindM (Array_ctor env (shape lhs) (dtype lhs) p 0) (\<lambda>out.
          bindM (Mul_out env this rhs out) (\<lambda>_ st'. (Inr out, st')))) st)"

text \<open>\<^verbatim>\<open>Array::IAdd(rhs)\<close> and \<^verbatim>\<open>Array::IMul(rhs)\<close> return \<^verbatim>\<open>*this\<close>.\<close>

definition IAdd :: "Env \<Rightarrow> nat \<Rightarrow> nat \<Rightarrow> State \<Rightarrow> nat result" where
  "IAdd env this rhs = bindM (Add_out env this rhs this) (\<lambda>_ st'. (Inr this, st'))"

definition IMul :: "Env \<Rightarrow> nat \<Rightarrow> nat \<Rightarrow> State \<Rightarrow> nat result" where
  "IMul env this rhs = bindM (Mul_out env this rhs this) (\<lambda>_ st'. (Inr this, st'))"

subsection \<open>The graph dump\<close>

text \<open>
  \<^verbatim>\<open>std::string(static_cast<size_t>(k), ' ')\<close> for an \<^verbatim>\<open>int\<close> \<open>k\<close>: the cast of a negative
  \<open>k\<close> is larger than any string, and the constructor throws \<^verbatim>\<open>std::length_error\<close>.
\<close>

definition indent_string :: "32 word \<Rightarrow> error + string" where
  "indent_string k = (if sint k < 0 then Inl LengthError else Inr (replicate (nat (sint k)) CHR '' ''))"

text \<open>
  \<^verbatim>\<open>DebugDumpComputationalGraph(os, array_node, indent)\<close>. The stream is the string
  written so far; \<open>ptr\<close> renders the address of a node, as \<^verbatim>\<open>operator<<\<close> does for
  \<^verbatim>\<open>&array_node\<close>. \<open>indent\<close> is an \<^verbatim>\<open>int\<close> of 32 bits; the overflow of \<^verbatim>\<open>indent * 2\<close>,
  \<^verbatim>\<open>(indent + 1) * 2\<close> and \<^verbatim>\<open>indent + 2\<close>, which C++ leaves undefined, wraps around as on
  the two's-complement machine. The recursion follows the store, which need not be
  well-founded, so the function takes fuel, one unit for each level of nodes, and is
  \<open>None\<close> when the fuel runs out.
\<close>

fun dump_node ::
    "(nat \<Rightarrow> string) \<Rightarrow> State \<Rightarrow> nat \<Rightarrow> string \<Rightarrow> nat \<Rightarrow> 32 word \<Rightarrow> (error + string) option"
  and dump_next_nodes ::
    "(nat \<Rightarrow> string) \<Rightarrow> State \<Rightarrow> nat \<Rightarrow> string \<Rightarrow> nat list \<Rightarrow> 32 word \<Rightarrow> (error + string) option" where
  "dump_node ptr st 0 os array_node indent = None"
| "dump_node ptr st (Suc fuel) os array_node indent =
     (case indent_string (indent * 2) of
        Inl e \<Rightarrow> Some (Inl e)
      | Inr sp \<Rightarrow>
        (case get_anode st array_node of
           None \<Rightarrow> Some (Inl MemoryFault)
         | Some nd \<Rightarrow>
             let os1 = os @ sp @ ''ArrayNode<'' @ ptr array_node @ ''>'' @ [CHR 0x0A]
             in (case nd of
                   None \<Rightarrow> Some (Inr os1)
                 | Some p \<Rightarrow>
                     (case get_onode st p of
                        None \<Rightarrow> Some (Inl MemoryFault)
                      | Some op \<Rightarrow>
                          (case indent_string ((indent + 1) * 2) of
                             Inl e \<Rightarrow> Some (Inl e)
                           | Inr sp1 \<Rightarrow>
                               dump_next_nodes ptr st fuel
                                 (os1 @ sp1 @ ''Op<'' @ name op @ ''>'' @ [CHR 0x0A])
                                 (next_nodes op) (indent + 2))))))"
| "dump_next_nodes ptr st fuel os [] indent = Some (Inr os)"
| "dump_next_nodes ptr st fuel os (next_node # rest) indent =
     (case dump_node ptr st fuel os next_node indent of
        None \<Rightarrow> None
      | Some (Inl e) \<Rightarrow> Some (Inl e)
      | Some (Inr os') \<Rightarrow> dump_next_nodes ptr st fuel os' rest indent)"

text \<open>\<^verbatim>\<open>DebugDumpComputationalGraph(os, array, indent)\<close> starts at \<^verbatim>\<open>*array.node()\<close>.\<close>

definition DebugDumpComputationalGraph ::
  "(nat \<Rightarrow> string) \<Rightarrow> State \<Rightarrow> nat \<Rightarrow> string \<Rightarrow> nat \<Rightarrow> 32 word \<Rightarrow> (error + string) option" where
  "DebugDumpComputationalGraph ptr st fuel os a indent =
     (case get_array st a of
        None \<Rightarrow> Some (Inl MemoryFault)
      | Some arr \<Rightarrow> dump_node ptr st fuel os (node arr) indent)"

subsection \<open>Programs over the interface\<close>

text \<open>
  What a caller can do to the store: allocate a buffer to hand to the constructor,
  select the current device, construct an \<^verbatim>\<open>Array\<close>, and call the arithmetic entry
  points. A program is a list of such calls; an exception ends the call that throws it
  and leaves the store as that call left it.
\<close>

datatype call =
    New_buffer "byte list"
  | Set_device Device
  | Construct Shape Dtype ptr int
  | Call_Add nat nat
  | Call_Mul nat nat
  | Call_IAdd nat nat
  | Call_IMul nat nat
  | Call_Add_out nat nat nat
  | Call_Mul_out nat nat nat

fun exec :: "Env \<Rightarrow> call \<Rightarrow> State \<Rightarrow> State" where
  "exec env (New_buffer bs) st = st\<lparr>bufs := bufs st @ [bs]\<rparr>"
| "exec env (Set_device d) st = st\<lparr>device := d\<rparr>"
| "exec env (Construct shp dt dat off) st = snd (Array_ctor env shp dt dat off st)"
| "exec env (Call_Add a b) st = snd (Add env a b st)"
| "exec env (Call_Mul a b) st = snd (Mul env a b st)"
| "exec env (Call_IAdd a b) st = snd (IAdd env a b st)"
| "exec env (Call_IMul a b) st = snd (IMul env a b st)"
| "exec env (Call_Add_out a b out) st = snd (Add_out env a b out st)"
| "exec env (Call_Mul_out a b out) st = snd (Mul_out env a b out st)"

definition run :: "Env \<Rightarrow> call list \<Rightarrow> State \<Rightarrow> State" where
  "run env cs st = fold (exec env) cs st"

definition init :: "Device \<Rightarrow> State" where
  "init d = \<lparr>arrays = [], bufs = [], anodes = [], onodes = [], device = d\<rparr>"

text \<open>The \<^verbatim>\<open>Array\<close> a call writes its result into, when that \<^verbatim>\<open>Array\<close> existed before.\<close>

fun output_of :: "call \<Rightarrow> nat option" where
  "output_of (Call_IAdd a b) = Some a"
| "output_of (Call_IMul a b) = Some a"
| "output_of (Call_Add_out a b out) = Some out"
| "output_of (Call_Mul_out a b out) = Some out"
| "output_of _ = None"

subsection \<open>Notions used to state the properties\<close>

text \<open>Element \<open>k\<close> of a buffer of elements of \<open>w\<close> bytes, as bytes and as a value of \<open>T\<close>.\<close>

definition slice :: "nat \<Rightarrow> byte list \<Rightarrow> nat \<Rightarrow> byte list" where
  "slice w buf k = take w (drop (k * w) buf)"

definition elem :: "'a ctype \<Rightarrow> byte list \<Rightarrow> nat \<Rightarrow> 'a" where
  "elem T buf k = load T (slice (sizeof T) buf k)"

text \<open>The bytes a kernel with operator \<open>f\<close> computes for the elements \<open>i\<close> to \<open>n - 1\<close>.\<close>

definition kernel_elem ::
  "'a ctype \<Rightarrow> ('a \<Rightarrow> 'a \<Rightarrow> 'a) \<Rightarrow> byte list \<Rightarrow> byte list \<Rightarrow> nat \<Rightarrow> byte list" where
  "kernel_elem T f bl br k = store T (f (elem T bl k) (elem T br k))"

definition kernel_bytes ::
  "'a ctype \<Rightarrow> ('a \<Rightarrow> 'a \<Rightarrow> 'a) \<Rightarrow> byte list \<Rightarrow> byte list \<Rightarrow> nat \<Rightarrow> nat \<Rightarrow> byte list" where
  "kernel_bytes T f bl br i n = concat (map (kernel_elem T f bl br) [i..<n])"

text \<open>An element type whose values have \<open>sizeof\<close> bytes and are read back as written.\<close>

definition ctype_ok :: "'a ctype \<Rightarrow> bool" where
  "ctype_ok T \<longleftrightarrow> (\<forall>x. length (store T x) = sizeof T) \<and> (\<forall>x. load T (store T x) = x)"

text \<open>The bytes of the store from a pointer to the end of its buffer.\<close>

definition bytes_at :: "State \<Rightarrow> ptr \<Rightarrow> byte list" where
  "bytes_at st p = drop (snd p) (bufs st ! fst p)"

text \<open>The \<open>len\<close> bytes at a pointer lie within a buffer of the store.\<close>

definition in_buffer :: "State \<Rightarrow> ptr \<Rightarrow> nat \<Rightarrow> bool" where
  "in_buffer st p len \<longleftrightarrow> fst p < length (bufs st) \<and> snd p + len \<le> length (bufs st ! fst p)"

text \<open>
  The invariant the spec gives for an \<^verbatim>\<open>Array\<close>: its buffer exists and has at least
  \<^verbatim>\<open>shape.total_size() * element_size(dtype)\<close> bytes from the data pointer on. The
  constructor does not check it.
\<close>

definition wf_array :: "State \<Rightarrow> Array \<Rightarrow> bool" where
  "wf_array st a \<longleftrightarrow> in_buffer st (data a) (total_bytes a)"

text \<open>
  The first \<open>n\<close> elements of a byte list are values of \<open>T\<close>, and of the C++ type of a
  dtype. This says something for \<^verbatim>\<open>bool\<close> only: each of the \<open>n\<close> bytes is 0 or 1.
\<close>

definition all_valid :: "'a ctype \<Rightarrow> byte list \<Rightarrow> nat \<Rightarrow> bool" where
  "all_valid T buf n \<longleftrightarrow> (\<forall>k<n. valid T (slice (sizeof T) buf k))"

definition holds_values :: "Env \<Rightarrow> Dtype \<Rightarrow> byte list \<Rightarrow> nat \<Rightarrow> bool" where
  "holds_values env dt buf n =
     (case dt of
        kBool \<Rightarrow> all_valid T_bool buf n
      | kInt8 \<Rightarrow> all_valid T_int8_t buf n
      | kInt16 \<Rightarrow> all_valid T_int16_t buf n
      | kInt32 \<Rightarrow> all_valid T_int32_t buf n
      | kInt64 \<Rightarrow> all_valid T_int64_t buf n
      | kUInt8 \<Rightarrow> all_valid T_uint8_t buf n
      | kFloat32 \<Rightarrow> all_valid (T_float env) buf n
      | kFloat64 \<Rightarrow> all_valid (T_double env) buf n)"

text \<open>
  The loop writes element \<open>i\<close> of the output after it has read the elements \<open>i\<close> of the
  operands. So it reads \<open>len\<close> bytes at \<open>src\<close> as they were at entry if they lie in
  another buffer than the output, or do not begin before the output begins, or end
  where the output begins or before. The remaining case, an operand that begins before
  the output and reaches into it, is the one in which an iteration reads what an
  earlier iteration wrote.
\<close>

definition reads_entry_values :: "ptr \<Rightarrow> ptr \<Rightarrow> nat \<Rightarrow> bool" where
  "reads_entry_values src out len \<longleftrightarrow>
     fst src \<noteq> fst out \<or> snd out \<le> snd src \<or> snd src + len \<le> snd out"

text \<open>
  Two stores with the same objects: the same \<^verbatim>\<open>Array\<close>s, nodes, edge records and
  device, and as many buffers.
\<close>

definition same_graph :: "State \<Rightarrow> State \<Rightarrow> bool" where
  "same_graph st st' \<longleftrightarrow>
     arrays st' = arrays st \<and> anodes st' = anodes st \<and> onodes st' = onodes st \<and>
     device st' = device st \<and> length (bufs st') = length (bufs st)"

text \<open>
  The graph step of a kernel: one new node, bound to \<open>out\<close>, whose producer is one new
  edge record named \<open>nm\<close> over the nodes \<open>this\<close> and \<open>rhs\<close> had, in this order.
\<close>

definition produced :: "string \<Rightarrow> nat \<Rightarrow> nat \<Rightarrow> nat \<Rightarrow> State \<Rightarrow> State \<Rightarrow> bool" where
  "produced nm this rhs out st st' \<longleftrightarrow>
     this < length (arrays st) \<and> rhs < length (arrays st) \<and> out < length (arrays st) \<and>
     arrays st' = (arrays st)[out := (arrays st ! out)\<lparr>node := length (anodes st)\<rparr>] \<and>
     anodes st' = anodes st @ [Some (length (onodes st))] \<and>
     onodes st' = onodes st @
       [\<lparr>name = nm, next_nodes = [node (arrays st ! this), node (arrays st ! rhs)]\<rparr>] \<and>
     device st' = device st \<and> length (bufs st') = length (bufs st)"

text \<open>The bytes of the \<open>n\<close> sums and products of the kernel the switch selects for a dtype.\<close>

definition add_bytes :: "Env \<Rightarrow> Dtype \<Rightarrow> byte list \<Rightarrow> byte list \<Rightarrow> nat \<Rightarrow> byte list" where
  "add_bytes env dt bl br n =
     (case dt of
        kBool \<Rightarrow> kernel_bytes T_bool (c_add T_bool) bl br 0 n
      | kInt8 \<Rightarrow> kernel_bytes T_int8_t (c_add T_int8_t) bl br 0 n
      | kInt16 \<Rightarrow> kernel_bytes T_int16_t (c_add T_int16_t) bl br 0 n
      | kInt32 \<Rightarrow> kernel_bytes T_int32_t (c_add T_int32_t) bl br 0 n
      | kInt64 \<Rightarrow> kernel_bytes T_int64_t (c_add T_int64_t) bl br 0 n
      | kUInt8 \<Rightarrow> kernel_bytes T_uint8_t (c_add T_uint8_t) bl br 0 n
      | kFloat32 \<Rightarrow> kernel_bytes (T_float env) (c_add (T_float env)) bl br 0 n
      | kFloat64 \<Rightarrow> kernel_bytes (T_double env) (c_add (T_double env)) bl br 0 n)"

definition mul_bytes :: "Env \<Rightarrow> Dtype \<Rightarrow> byte list \<Rightarrow> byte list \<Rightarrow> nat \<Rightarrow> byte list" where
  "mul_bytes env dt bl br n =
     (case dt of
        kBool \<Rightarrow> kernel_bytes T_bool (c_mul T_bool) bl br 0 n
      | kInt8 \<Rightarrow> kernel_bytes T_int8_t (c_mul T_int8_t) bl br 0 n
      | kInt16 \<Rightarrow> kernel_bytes T_int16_t (c_mul T_int16_t) bl br 0 n
      | kInt32 \<Rightarrow> kernel_bytes T_int32_t (c_mul T_int32_t) bl br 0 n
      | kInt64 \<Rightarrow> kernel_bytes T_int64_t (c_mul T_int64_t) bl br 0 n
      | kUInt8 \<Rightarrow> kernel_bytes T_uint8_t (c_mul T_uint8_t) bl br 0 n
      | kFloat32 \<Rightarrow> kernel_bytes (T_float env) (c_mul (T_float env)) bl br 0 n
      | kFloat64 \<Rightarrow> kernel_bytes (T_double env) (c_mul (T_double env)) bl br 0 n)"

text \<open>
  Buffer \<open>bo\<close> holds, as elements of dtype \<open>dt\<close>, the \<open>n\<close> element-wise sums (products)
  of the buffers \<open>bl\<close> and \<open>br\<close>, in the arithmetic of the C++ type of \<open>dt\<close>: \<^verbatim>\<open>+\<close> and
  \<^verbatim>\<open>*\<close> modulo \<open>2 ^ w\<close> on the integers, disjunction and conjunction on \<^verbatim>\<open>bool\<close>, the
  machine's operations on \<^verbatim>\<open>float\<close> and \<^verbatim>\<open>double\<close>.
\<close>

definition is_sum :: "Env \<Rightarrow> Dtype \<Rightarrow> byte list \<Rightarrow> byte list \<Rightarrow> byte list \<Rightarrow> nat \<Rightarrow> bool" where
  "is_sum env dt bl br bo n =
     (case dt of
        kBool \<Rightarrow> (\<forall>i<n. elem T_bool bo i = (elem T_bool bl i \<or> elem T_bool br i))
      | kInt8 \<Rightarrow> (\<forall>i<n. elem T_int8_t bo i = elem T_int8_t bl i + elem T_int8_t br i)
      | kInt16 \<Rightarrow> (\<forall>i<n. elem T_int16_t bo i = elem T_int16_t bl i + elem T_int16_t br i)
      | kInt32 \<Rightarrow> (\<forall>i<n. elem T_int32_t bo i = elem T_int32_t bl i + elem T_int32_t br i)
      | kInt64 \<Rightarrow> (\<forall>i<n. elem T_int64_t bo i = elem T_int64_t bl i + elem T_int64_t br i)
      | kUInt8 \<Rightarrow> (\<forall>i<n. elem T_uint8_t bo i = elem T_uint8_t bl i + elem T_uint8_t br i)
      | kFloat32 \<Rightarrow> (\<forall>i<n. elem (T_float env) bo i
            = float_add env (elem (T_float env) bl i) (elem (T_float env) br i))
      | kFloat64 \<Rightarrow> (\<forall>i<n. elem (T_double env) bo i
            = double_add env (elem (T_double env) bl i) (elem (T_double env) br i)))"

definition is_product :: "Env \<Rightarrow> Dtype \<Rightarrow> byte list \<Rightarrow> byte list \<Rightarrow> byte list \<Rightarrow> nat \<Rightarrow> bool" where
  "is_product env dt bl br bo n =
     (case dt of
        kBool \<Rightarrow> (\<forall>i<n. elem T_bool bo i = (elem T_bool bl i \<and> elem T_bool br i))
      | kInt8 \<Rightarrow> (\<forall>i<n. elem T_int8_t bo i = elem T_int8_t bl i * elem T_int8_t br i)
      | kInt16 \<Rightarrow> (\<forall>i<n. elem T_int16_t bo i = elem T_int16_t bl i * elem T_int16_t br i)
      | kInt32 \<Rightarrow> (\<forall>i<n. elem T_int32_t bo i = elem T_int32_t bl i * elem T_int32_t br i)
      | kInt64 \<Rightarrow> (\<forall>i<n. elem T_int64_t bo i = elem T_int64_t bl i * elem T_int64_t br i)
      | kUInt8 \<Rightarrow> (\<forall>i<n. elem T_uint8_t bo i = elem T_uint8_t bl i * elem T_uint8_t br i)
      | kFloat32 \<Rightarrow> (\<forall>i<n. elem (T_float env) bo i
            = float_mul env (elem (T_float env) bl i) (elem (T_float env) br i))
      | kFloat64 \<Rightarrow> (\<forall>i<n. elem (T_double env) bo i
            = double_mul env (elem (T_double env) bl i) (elem (T_double env) br i)))"

text \<open>
  The graph is well-formed: every \<^verbatim>\<open>Array\<close> has a node, every producer is an edge
  record of the store, and the operands of a node's producer are older than the node.
\<close>

definition graph_ok :: "State \<Rightarrow> bool" where
  "graph_ok st \<longleftrightarrow>
     (\<forall>a \<in> set (arrays st). node a < length (anodes st)) \<and>
     (\<forall>n < length (anodes st). \<forall>p. anodes st ! n = Some p \<longrightarrow>
        p < length (onodes st) \<and> (\<forall>m \<in> set (next_nodes (onodes st ! p)). m < n))"

text \<open>
  What a construction does to the store: one new leaf node, any number of new buffers,
  and, when it succeeds, one new \<^verbatim>\<open>Array\<close> bound to that node.
\<close>

definition constructed :: "State \<Rightarrow> State \<Rightarrow> bool" where
  "constructed st st' \<longleftrightarrow>
     anodes st' = anodes st @ [None] \<and> onodes st' = onodes st \<and> device st' = device st \<and>
     take (length (bufs st)) (bufs st') = bufs st \<and> length (bufs st) \<le> length (bufs st') \<and>
     (arrays st' = arrays st \<or> (\<exists>a. arrays st' = arrays st @ [a] \<and> node a = length (anodes st)))"

subsection \<open>Concrete stores\<close>

text \<open>
  A build without CUDA. Its floating-point operations are placeholders (exclusive-or):
  no example over it has floating-point elements.
\<close>

definition ex_env :: Env where
  "ex_env = \<lparr>enable_cuda = False, cuda_malloc_ok = (\<lambda>n. True),
     float_add = (\<lambda>x y. xor x y), float_mul = (\<lambda>x y. xor x y),
     double_add = (\<lambda>x y. xor x y), double_mul = (\<lambda>x y. xor x y)\<rparr>"

text \<open>
  The example of the spec: \<^verbatim>\<open>a = Array(shape=[2], dtype=int32, data=[1,2])\<close> and
  \<^verbatim>\<open>b = Array(shape=[2], dtype=int32, data=[3,4])\<close>, on the CPU.
\<close>

definition ex_a :: Array where
  "ex_a = \<lparr>shape = [2], is_contiguous = True, dtype = kInt32, data = (0, 0), offset = 0, node = 0\<rparr>"

definition ex_b :: Array where
  "ex_b = \<lparr>shape = [2], is_contiguous = True, dtype = kInt32, data = (1, 0), offset = 0, node = 1\<rparr>"

definition ex_st :: State where
  "ex_st = \<lparr>arrays = [ex_a, ex_b],
     bufs = [[1, 0, 0, 0, 2, 0, 0, 0], [3, 0, 0, 0, 4, 0, 0, 0]],
     anodes = [None, None], onodes = [], device = Cpu\<rparr>"

text \<open>
  From \<open>st\<close> to \<open>st'\<close> the nodes of \<open>st\<close> are unchanged, no \<^verbatim>\<open>Array\<close> has disappeared, and
  the \<^verbatim>\<open>Array\<close> \<open>x\<close> is unchanged.
\<close>

definition extends :: "nat \<Rightarrow> State \<Rightarrow> State \<Rightarrow> bool" where
  "extends x st st' \<longleftrightarrow>
     (\<exists>ns. anodes st' = anodes st @ ns) \<and> length (arrays st) \<le> length (arrays st') \<and>
     (x < length (arrays st) \<longrightarrow> arrays st' ! x = arrays st ! x)"

text \<open>
  The program that builds the example of the spec from the empty store and adds the
  two Arrays, and a rendering of node addresses by one digit.
\<close>

definition ex_prog :: "call list" where
  "ex_prog = [New_buffer [1, 0, 0, 0, 2, 0, 0, 0], New_buffer [3, 0, 0, 0, 4, 0, 0, 0],
     Construct [2] kInt32 (0, 0) 0, Construct [2] kInt32 (1, 0) 0, Call_Add 0 1]"

definition ex_ptr :: "nat \<Rightarrow> string" where
  "ex_ptr n = [char_of (48 + n)]"

text \<open>
  Two \<^verbatim>\<open>int32\<close> Arrays of the shapes \<open>[2, 3]\<close> and \<open>[3, 2]\<close>, and an \<^verbatim>\<open>int32\<close> and a
  \<^verbatim>\<open>float32\<close> Array of the shape \<open>[2]\<close>, each pair on the CPU.
\<close>

definition ex_m0 :: Array where
  "ex_m0 = \<lparr>shape = [2, 3], is_contiguous = True, dtype = kInt32, data = (0, 0), offset = 0, node = 0\<rparr>"

definition ex_m1 :: Array where
  "ex_m1 = \<lparr>shape = [3, 2], is_contiguous = True, dtype = kInt32, data = (1, 0), offset = 0, node = 1\<rparr>"

definition ex_mm :: State where
  "ex_mm = \<lparr>arrays = [ex_m0, ex_m1], bufs = [replicate 24 1, replicate 24 2],
     anodes = [None, None], onodes = [], device = Cpu\<rparr>"

definition ex_f :: Array where
  "ex_f = \<lparr>shape = [2], is_contiguous = True, dtype = kFloat32, data = (1, 0), offset = 0, node = 1\<rparr>"

definition ex_dm :: State where
  "ex_dm = \<lparr>arrays = [ex_a, ex_f],
     bufs = [[1, 0, 0, 0, 2, 0, 0, 0], [0, 0, 128, 63, 0, 0, 0, 64]],
     anodes = [None, None], onodes = [], device = Cpu\<rparr>"

text \<open>
  Two \<^verbatim>\<open>Array\<close> objects over one buffer (on the CPU the constructor keeps the pointer it
  is given, so the caller can give it twice); two \<^verbatim>\<open>int32\<close> Arrays of shape \<open>[2]\<close> in one
  buffer of three \<^verbatim>\<open>int32\<close> (5, 1, 2), the first at byte 4 and the second at byte 0, so
  that the second element of the one at byte 0 is the first element of the other; and
  an \<^verbatim>\<open>int8\<close> Array of shape \<open>[8]\<close> added to the store of the example as a third object.
\<close>

definition ex_s0 :: Array where
  "ex_s0 = \<lparr>shape = [2], is_contiguous = True, dtype = kInt32, data = (0, 4), offset = 0, node = 0\<rparr>"

definition ex_s1 :: Array where
  "ex_s1 = \<lparr>shape = [2], is_contiguous = True, dtype = kInt32, data = (0, 0), offset = 0, node = 1\<rparr>"

definition ex_shift :: State where
  "ex_shift = \<lparr>arrays = [ex_s0, ex_s1], bufs = [[5, 0, 0, 0, 1, 0, 0, 0, 2, 0, 0, 0]],
     anodes = [None, None], onodes = [], device = Cpu\<rparr>"

definition ex_a2 :: Array where
  "ex_a2 = \<lparr>shape = [2], is_contiguous = True, dtype = kInt32, data = (0, 0), offset = 0, node = 1\<rparr>"

definition ex_alias :: State where
  "ex_alias = \<lparr>arrays = [ex_a, ex_a2], bufs = [[1, 0, 0, 0, 2, 0, 0, 0]],
     anodes = [None, None], onodes = [], device = Cpu\<rparr>"

definition ex_o :: Array where
  "ex_o = \<lparr>shape = [8], is_contiguous = True, dtype = kInt8, data = (2, 0), offset = 0, node = 2\<rparr>"

definition ex_st3 :: State where
  "ex_st3 = \<lparr>arrays = [ex_a, ex_b, ex_o],
     bufs = [[1, 0, 0, 0, 2, 0, 0, 0], [3, 0, 0, 0, 4, 0, 0, 0], [9, 9, 9, 9, 9, 9, 9, 9, 9]],
     anodes = [None, None, None], onodes = [], device = Cpu\<rparr>"

text \<open>An exception, as opposed to the fault that stands for undefined behaviour.\<close>

definition raises :: "error + 'a \<Rightarrow> bool" where
  "raises res \<longleftrightarrow> (\<exists>e. res = Inl e \<and> e \<noteq> MemoryFault)"

text \<open>The store with the offset of every \<^verbatim>\<open>Array\<close> set to 0.\<close>

definition erase_offsets :: "State \<Rightarrow> State" where
  "erase_offsets st = st\<lparr>arrays := map (\<lambda>a. a\<lparr>offset := 0\<rparr>) (arrays st)\<rparr>"

text \<open>
  A call that does not look at offsets: on the store without offsets it returns the
  same value and leaves the same store without offsets.
\<close>

definition offset_blind :: "(State \<Rightarrow> 'a result) \<Rightarrow> bool" where
  "offset_blind f \<longleftrightarrow> (\<forall>st. f (erase_offsets st) = (fst (f st), erase_offsets (snd (f st))))"

text \<open>
  The example with the offsets 4 and 8; a build with CUDA, and one in which no
  allocation on the device succeeds; the example on the CUDA device.
\<close>

definition ex_env_nomem :: Env where
  "ex_env_nomem = ex_env\<lparr>enable_cuda := True, cuda_malloc_ok := (\<lambda>n. False)\<rparr>"

definition ex_st_off :: State where
  "ex_st_off = ex_st\<lparr>arrays := [ex_a\<lparr>offset := 4\<rparr>, ex_b\<lparr>offset := 8\<rparr>]\<rparr>"

definition ex_env_cuda :: Env where
  "ex_env_cuda = ex_env\<lparr>enable_cuda := True\<rparr>"

definition ex_st_cuda :: State where
  "ex_st_cuda = ex_st\<lparr>device := Cuda\<rparr>"

subsection \<open>IEEE 754 arithmetic\<close>

text \<open>
  The sum and the product of \<^verbatim>\<open>float\<close> and \<^verbatim>\<open>double\<close> on the hosts the code runs on are
  those of IEEE 754 binary32 and binary64, rounding to nearest, ties to even. They are
  defined here on bit patterns, for a format of precision \<open>p\<close> (with the hidden bit) and
  \<open>w\<close> exponent bits: binary32 is \<open>p = 24\<close>, \<open>w = 8\<close>, binary64 is \<open>p = 53\<close>, \<open>w = 11\<close>.
  A finite number is its sign and its magnitude \<open>fp_mag\<close>, counted in units of the
  smallest subnormal. Which NaN an operation returns is not fixed by the standard; here
  it is the first NaN operand made quiet.
\<close>

fun bitlen :: "nat \<Rightarrow> nat" where
  "bitlen n = (if n = 0 then 0 else Suc (bitlen (n div 2)))"

declare bitlen.simps [simp del]

definition fp_sign :: "nat \<Rightarrow> nat \<Rightarrow> nat \<Rightarrow> nat" where
  "fp_sign p w x = (x div 2 ^ (p - 1 + w)) mod 2"

definition fp_exp :: "nat \<Rightarrow> nat \<Rightarrow> nat \<Rightarrow> nat" where
  "fp_exp p w x = (x div 2 ^ (p - 1)) mod 2 ^ w"

definition fp_frac :: "nat \<Rightarrow> nat \<Rightarrow> nat" where
  "fp_frac p x = x mod 2 ^ (p - 1)"

definition fp_pack :: "nat \<Rightarrow> nat \<Rightarrow> nat \<Rightarrow> nat \<Rightarrow> nat \<Rightarrow> nat" where
  "fp_pack p w s e f = s * 2 ^ (p - 1 + w) + e * 2 ^ (p - 1) + f"

definition fp_nan :: "nat \<Rightarrow> nat \<Rightarrow> nat \<Rightarrow> bool" where
  "fp_nan p w x \<longleftrightarrow> fp_exp p w x = 2 ^ w - 1 \<and> fp_frac p x \<noteq> 0"

definition fp_inf :: "nat \<Rightarrow> nat \<Rightarrow> nat \<Rightarrow> bool" where
  "fp_inf p w x \<longleftrightarrow> fp_exp p w x = 2 ^ w - 1 \<and> fp_frac p x = 0"

definition fp_zero :: "nat \<Rightarrow> nat \<Rightarrow> nat \<Rightarrow> bool" where
  "fp_zero p w x \<longleftrightarrow> fp_exp p w x = 0 \<and> fp_frac p x = 0"

definition fp_quiet :: "nat \<Rightarrow> nat \<Rightarrow> nat \<Rightarrow> nat" where
  "fp_quiet p w x = fp_pack p w (fp_sign p w x) (2 ^ w - 1) (fp_frac p x mod 2 ^ (p - 2) + 2 ^ (p - 2))"

definition fp_mag :: "nat \<Rightarrow> nat \<Rightarrow> nat \<Rightarrow> nat" where
  "fp_mag p w x =
     (if fp_exp p w x = 0 then fp_frac p x
      else (fp_frac p x + 2 ^ (p - 1)) * 2 ^ (fp_exp p w x - 1))"

text \<open>
  The number nearest to \<open>N * 2 ^ -g\<close> units with sign \<open>s\<close>: \<open>q\<close> is the weight of the last
  bit kept, \<open>r\<close> the part rounded away; a carry out of the significand moves to the next
  binade, and an exponent out of range gives infinity.
\<close>

definition fp_round :: "nat \<Rightarrow> nat \<Rightarrow> nat \<Rightarrow> nat \<Rightarrow> nat \<Rightarrow> nat" where
  "fp_round p w s N g =
     (let q = max (bitlen N - p) g;
          m = N div 2 ^ q;
          r = N mod 2 ^ q;
          up = (0 < q \<and> (2 ^ q < 2 * r \<or> 2 * r = 2 ^ q \<and> odd m));
          m1 = (if up then m + 1 else m);
          m2 = (if m1 = 2 ^ p then 2 ^ (p - 1) else m1);
          k = (if m1 = 2 ^ p then q - g + 1 else q - g)
      in if m2 < 2 ^ (p - 1) then fp_pack p w s 0 m2
         else if 2 ^ w - 1 \<le> k + 1 then fp_pack p w s (2 ^ w - 1) 0
         else fp_pack p w s (k + 1) (m2 - 2 ^ (p - 1)))"

definition fp_add :: "nat \<Rightarrow> nat \<Rightarrow> nat \<Rightarrow> nat \<Rightarrow> nat" where
  "fp_add p w x y =
     (if fp_nan p w x then fp_quiet p w x
      else if fp_nan p w y then fp_quiet p w y
      else if fp_inf p w x then
        (if fp_inf p w y \<and> fp_sign p w x \<noteq> fp_sign p w y
         then fp_pack p w 1 (2 ^ w - 1) (2 ^ (p - 2)) else x)
      else if fp_inf p w y then y
      else
        let a = (if fp_sign p w x = 1 then - int (fp_mag p w x) else int (fp_mag p w x));
            b = (if fp_sign p w y = 1 then - int (fp_mag p w y) else int (fp_mag p w y));
            s = a + b
        in if s = 0 then (if fp_sign p w x = 1 \<and> fp_sign p w y = 1 then fp_pack p w 1 0 0 else 0)
           else fp_round p w (if s < 0 then 1 else 0) (nat \<bar>s\<bar>) 0)"

definition fp_mul :: "nat \<Rightarrow> nat \<Rightarrow> nat \<Rightarrow> nat \<Rightarrow> nat" where
  "fp_mul p w x y =
     (let s = (fp_sign p w x + fp_sign p w y) mod 2 in
      if fp_nan p w x then fp_quiet p w x
      else if fp_nan p w y then fp_quiet p w y
      else if fp_inf p w x \<or> fp_inf p w y then
        (if fp_zero p w x \<or> fp_zero p w y then fp_pack p w 1 (2 ^ w - 1) (2 ^ (p - 2))
         else fp_pack p w s (2 ^ w - 1) 0)
      else if fp_zero p w x \<or> fp_zero p w y then fp_pack p w s 0 0
      else fp_round p w s (fp_mag p w x * fp_mag p w y) (2 ^ (w - 1) + p - 3))"

text \<open>The comparison \<^verbatim>\<open>==\<close>: no NaN is equal to anything, and \<open>-0\<close> is equal to \<open>+0\<close>.\<close>

definition fp_eq :: "nat \<Rightarrow> nat \<Rightarrow> nat \<Rightarrow> nat \<Rightarrow> bool" where
  "fp_eq p w x y \<longleftrightarrow> \<not> fp_nan p w x \<and> \<not> fp_nan p w y \<and> (x = y \<or> fp_zero p w x \<and> fp_zero p w y)"

text \<open>
  A machine operation \<open>f\<close> on words agrees with the operation \<open>op\<close> of the standard:
  where the standard's result is a number (finite or infinite), \<open>f\<close> returns it; where
  it is a NaN, \<open>f\<close> returns a NaN, whichever. A machine whose floating-point unit is
  IEEE 754 agrees in this sense on the four operations; the one used in the examples
  returns the NaN of \<open>fp_add\<close> and \<open>fp_mul\<close>.
\<close>

definition fp_agrees ::
  "nat \<Rightarrow> nat \<Rightarrow> (nat \<Rightarrow> nat \<Rightarrow> nat) \<Rightarrow> ('a::len word \<Rightarrow> 'a word \<Rightarrow> 'a word) \<Rightarrow> bool" where
  "fp_agrees p w op f \<longleftrightarrow>
     (\<forall>x y. if fp_nan p w (op (unat x) (unat y)) then fp_nan p w (unat (f x y))
            else f x y = word_of_nat (op (unat x) (unat y)))"

definition ieee_fpu :: "Env \<Rightarrow> bool" where
  "ieee_fpu env \<longleftrightarrow>
     fp_agrees 24 8 (fp_add 24 8) (float_add env) \<and>
     fp_agrees 24 8 (fp_mul 24 8) (float_mul env) \<and>
     fp_agrees 53 11 (fp_add 53 11) (double_add env) \<and>
     fp_agrees 53 11 (fp_mul 53 11) (double_mul env)"

definition ieee_env :: Env where
  "ieee_env = \<lparr>enable_cuda = False, cuda_malloc_ok = (\<lambda>n. True),
     float_add = (\<lambda>x y. word_of_nat (fp_add 24 8 (unat x) (unat y))),
     float_mul = (\<lambda>x y. word_of_nat (fp_mul 24 8 (unat x) (unat y))),
     double_add = (\<lambda>x y. word_of_nat (fp_add 53 11 (unat x) (unat y))),
     double_mul = (\<lambda>x y. word_of_nat (fp_mul 53 11 (unat x) (unat y)))\<rparr>"

text \<open>
  The sums and products once more, read with the comparison \<^verbatim>\<open>==\<close> of the C++ type
  where \<open>is_sum\<close> and \<open>is_product\<close> say that the element is the result bit for bit. For
  \<^verbatim>\<open>bool\<close> and the integers this is the same. A floating-point element that is the
  machine's result bit for bit compares equal to it unless the result is a NaN.
\<close>

definition eq_sum :: "Env \<Rightarrow> Dtype \<Rightarrow> byte list \<Rightarrow> byte list \<Rightarrow> byte list \<Rightarrow> nat \<Rightarrow> bool" where
  "eq_sum env dt bl br bo n =
     (case dt of
        kFloat32 \<Rightarrow> (\<forall>i<n.
           fp_nan 24 8 (unat (float_add env (elem (T_float env) bl i) (elem (T_float env) br i))) \<or>
           fp_eq 24 8 (unat (elem (T_float env) bo i))
             (unat (float_add env (elem (T_float env) bl i) (elem (T_float env) br i))))
      | kFloat64 \<Rightarrow> (\<forall>i<n.
           fp_nan 53 11 (unat (double_add env (elem (T_double env) bl i) (elem (T_double env) br i))) \<or>
           fp_eq 53 11 (unat (elem (T_double env) bo i))
             (unat (double_add env (elem (T_double env) bl i) (elem (T_double env) br i))))
      | _ \<Rightarrow> is_sum env dt bl br bo n)"

definition eq_product :: "Env \<Rightarrow> Dtype \<Rightarrow> byte list \<Rightarrow> byte list \<Rightarrow> byte list \<Rightarrow> nat \<Rightarrow> bool" where
  "eq_product env dt bl br bo n =
     (case dt of
        kFloat32 \<Rightarrow> (\<forall>i<n.
           fp_nan 24 8 (unat (float_mul env (elem (T_float env) bl i) (elem (T_float env) br i))) \<or>
           fp_eq 24 8 (unat (elem (T_float env) bo i))
             (unat (float_mul env (elem (T_float env) bl i) (elem (T_float env) br i))))
      | kFloat64 \<Rightarrow> (\<forall>i<n.
           fp_nan 53 11 (unat (double_mul env (elem (T_double env) bl i) (elem (T_double env) br i))) \<or>
           fp_eq 53 11 (unat (elem (T_double env) bo i))
             (unat (double_mul env (elem (T_double env) bl i) (elem (T_double env) br i))))
      | _ \<Rightarrow> is_product env dt bl br bo n)"

text \<open>
  The first \<open>n\<close> elements of a buffer, read in dtype \<open>dt\<close>, are all that dtype's zero
  (\<^verbatim>\<open>false\<close>, 0, \<open>+0.0\<close>) or all its one (\<^verbatim>\<open>true\<close>, 1, \<open>1.0\<close>); none of them is a NaN;
  none of them is \<open>-0.0\<close>; they are equal, element by element, to those of another
  buffer, in the sense of \<^verbatim>\<open>==\<close> on the dtype's C++ type (\<open>same_elems\<close>), and bit for bit
  (\<open>identical_elems\<close>).
\<close>

definition zero_filled :: "Env \<Rightarrow> Dtype \<Rightarrow> byte list \<Rightarrow> nat \<Rightarrow> bool" where
  "zero_filled env dt bz n =
     (case dt of
        kBool \<Rightarrow> (\<forall>i<n. elem T_bool bz i = False)
      | kInt8 \<Rightarrow> (\<forall>i<n. elem T_int8_t bz i = 0)
      | kInt16 \<Rightarrow> (\<forall>i<n. elem T_int16_t bz i = 0)
      | kInt32 \<Rightarrow> (\<forall>i<n. elem T_int32_t bz i = 0)
      | kInt64 \<Rightarrow> (\<forall>i<n. elem T_int64_t bz i = 0)
      | kUInt8 \<Rightarrow> (\<forall>i<n. elem T_uint8_t bz i = 0)
      | kFloat32 \<Rightarrow> (\<forall>i<n. elem (T_float env) bz i = 0)
      | kFloat64 \<Rightarrow> (\<forall>i<n. elem (T_double env) bz i = 0))"

definition one_filled :: "Env \<Rightarrow> Dtype \<Rightarrow> byte list \<Rightarrow> nat \<Rightarrow> bool" where
  "one_filled env dt bz n =
     (case dt of
        kBool \<Rightarrow> (\<forall>i<n. elem T_bool bz i = True)
      | kInt8 \<Rightarrow> (\<forall>i<n. elem T_int8_t bz i = 1)
      | kInt16 \<Rightarrow> (\<forall>i<n. elem T_int16_t bz i = 1)
      | kInt32 \<Rightarrow> (\<forall>i<n. elem T_int32_t bz i = 1)
      | kInt64 \<Rightarrow> (\<forall>i<n. elem T_int64_t bz i = 1)
      | kUInt8 \<Rightarrow> (\<forall>i<n. elem T_uint8_t bz i = 1)
      | kFloat32 \<Rightarrow> (\<forall>i<n. elem (T_float env) bz i = 0x3F800000)
      | kFloat64 \<Rightarrow> (\<forall>i<n. elem (T_double env) bz i = 0x3FF0000000000000))"

definition no_nan :: "Env \<Rightarrow> Dtype \<Rightarrow> byte list \<Rightarrow> nat \<Rightarrow> bool" where
  "no_nan env dt ba n =
     (case dt of
        kFloat32 \<Rightarrow> (\<forall>i<n. \<not> fp_nan 24 8 (unat (elem (T_float env) ba i)))
      | kFloat64 \<Rightarrow> (\<forall>i<n. \<not> fp_nan 53 11 (unat (elem (T_double env) ba i)))
      | _ \<Rightarrow> True)"

definition no_neg_zero :: "Env \<Rightarrow> Dtype \<Rightarrow> byte list \<Rightarrow> nat \<Rightarrow> bool" where
  "no_neg_zero env dt ba n =
     (case dt of
        kFloat32 \<Rightarrow> (\<forall>i<n. elem (T_float env) ba i \<noteq> 0x80000000)
      | kFloat64 \<Rightarrow> (\<forall>i<n. elem (T_double env) ba i \<noteq> 0x8000000000000000)
      | _ \<Rightarrow> True)"

definition identical_elems :: "Env \<Rightarrow> Dtype \<Rightarrow> byte list \<Rightarrow> byte list \<Rightarrow> nat \<Rightarrow> bool" where
  "identical_elems env dt bo ba n =
     (case dt of
        kBool \<Rightarrow> (\<forall>i<n. elem T_bool bo i = elem T_bool ba i)
      | kInt8 \<Rightarrow> (\<forall>i<n. elem T_int8_t bo i = elem T_int8_t ba i)
      | kInt16 \<Rightarrow> (\<forall>i<n. elem T_int16_t bo i = elem T_int16_t ba i)
      | kInt32 \<Rightarrow> (\<forall>i<n. elem T_int32_t bo i = elem T_int32_t ba i)
      | kInt64 \<Rightarrow> (\<forall>i<n. elem T_int64_t bo i = elem T_int64_t ba i)
      | kUInt8 \<Rightarrow> (\<forall>i<n. elem T_uint8_t bo i = elem T_uint8_t ba i)
      | kFloat32 \<Rightarrow> (\<forall>i<n. elem (T_float env) bo i = elem (T_float env) ba i)
      | kFloat64 \<Rightarrow> (\<forall>i<n. elem (T_double env) bo i = elem (T_double env) ba i))"

definition same_elems :: "Env \<Rightarrow> Dtype \<Rightarrow> byte list \<Rightarrow> byte list \<Rightarrow> nat \<Rightarrow> bool" where
  "same_elems env dt bo ba n =
     (case dt of
        kBool \<Rightarrow> (\<forall>i<n. elem T_bool bo i = elem T_bool ba i)
      | kInt8 \<Rightarrow> (\<forall>i<n. elem T_int8_t bo i = elem T_int8_t ba i)
      | kInt16 \<Rightarrow> (\<forall>i<n. elem T_int16_t bo i = elem T_int16_t ba i)
      | kInt32 \<Rightarrow> (\<forall>i<n. elem T_int32_t bo i = elem T_int32_t ba i)
      | kInt64 \<Rightarrow> (\<forall>i<n. elem T_int64_t bo i = elem T_int64_t ba i)
      | kUInt8 \<Rightarrow> (\<forall>i<n. elem T_uint8_t bo i = elem T_uint8_t ba i)
      | kFloat32 \<Rightarrow> (\<forall>i<n. fp_eq 24 8 (unat (elem (T_float env) bo i))
                                      (unat (elem (T_float env) ba i)))
      | kFloat64 \<Rightarrow> (\<forall>i<n. fp_eq 53 11 (unat (elem (T_double env) bo i))
                                       (unat (elem (T_double env) ba i))))"

text \<open>
  Three \<^verbatim>\<open>float32\<close> Arrays of shape \<open>[1]\<close> on the CPU: \<open>a\<close>, a zero and a one. In \<open>ex_nan\<close>
  the element of \<open>a\<close> is a signalling NaN (\<open>0x7FA00000\<close>), in \<open>ex_flt\<close> it is \<open>1.5\<close>, in
  \<open>ex_negz\<close> it is \<open>-0.0\<close> (\<open>0x80000000\<close>).
\<close>

definition ex_f0 :: Array where
  "ex_f0 = \<lparr>shape = [1], is_contiguous = True, dtype = kFloat32, data = (0, 0), offset = 0, node = 0\<rparr>"

definition ex_f1 :: Array where
  "ex_f1 = \<lparr>shape = [1], is_contiguous = True, dtype = kFloat32, data = (1, 0), offset = 0, node = 1\<rparr>"

definition ex_f2 :: Array where
  "ex_f2 = \<lparr>shape = [1], is_contiguous = True, dtype = kFloat32, data = (2, 0), offset = 0, node = 2\<rparr>"

definition ex_nan :: State where
  "ex_nan = \<lparr>arrays = [ex_f0, ex_f1, ex_f2],
     bufs = [[0, 0, 160, 127], [0, 0, 0, 0], [0, 0, 128, 63]],
     anodes = [None, None, None], onodes = [], device = Cpu\<rparr>"

definition ex_flt :: State where
  "ex_flt = \<lparr>arrays = [ex_f0, ex_f1, ex_f2],
     bufs = [[0, 0, 192, 63], [0, 0, 0, 0], [0, 0, 128, 63]],
     anodes = [None, None, None], onodes = [], device = Cpu\<rparr>"

definition ex_negz :: State where
  "ex_negz = \<lparr>arrays = [ex_f0, ex_f1, ex_f2],
     bufs = [[0, 0, 0, 128], [0, 0, 0, 0], [0, 0, 128, 63]],
     anodes = [None, None, None], onodes = [], device = Cpu\<rparr>"

text \<open>
  Two \<^verbatim>\<open>bool\<close> Arrays of shape \<open>[2]\<close> on the CPU. In \<open>ex_bool\<close> the bytes of the first are
  1 and 0 and those of the second are 1 and 1. In \<open>ex_bool_bad\<close> the bytes of the first
  are 2 and 4, which are not values of \<^verbatim>\<open>bool\<close>.
\<close>

definition ex_b0 :: Array where
  "ex_b0 = \<lparr>shape = [2], is_contiguous = True, dtype = kBool, data = (0, 0), offset = 0, node = 0\<rparr>"

definition ex_b1 :: Array where
  "ex_b1 = \<lparr>shape = [2], is_contiguous = True, dtype = kBool, data = (1, 0), offset = 0, node = 1\<rparr>"

definition ex_bool :: State where
  "ex_bool = \<lparr>arrays = [ex_b0, ex_b1], bufs = [[1, 0], [1, 1]],
     anodes = [None, None], onodes = [], device = Cpu\<rparr>"

definition ex_bool_bad :: State where
  "ex_bool_bad = ex_bool\<lparr>bufs := [[2, 4], [1, 1]]\<rparr>"

section \<open>Properties\<close>

subsection \<open>Sequencing\<close>

lemma bindM_Inr: "m st = (Inr x, st') \<Longrightarrow> bindM m f st = f x st'"
  by (simp add: bindM_def)

lemma bindM_Inl: "m st = (Inl e, st') \<Longrightarrow> bindM m f st = (Inl e, st')"
  by (simp add: bindM_def)

subsection \<open>The kernel loop\<close>

lemma drop_patch:
  "p + length bs \<le> length B \<Longrightarrow> p + length bs \<le> m \<Longrightarrow>
   drop m (take p B @ bs @ drop (p + length bs) B) = drop m B"
  by (simp add: min_def)

lemma take_patch:
  assumes "p + length bs \<le> length B"
  shows "take (p + length bs) (take p B @ bs @ drop (p + length bs) B) = take p B @ bs"
proof -
  from assms have "length (take p B @ bs) = p + length bs" by simp
  then have "take (p + length bs) ((take p B @ bs) @ drop (p + length bs) B) = take p B @ bs"
    by (metis append_eq_conv_conj)
  then show ?thesis by simp
qed

text \<open>A window of a list that does not meet the patched part is unchanged.\<close>

lemma window_patch:
  assumes "p + length bs \<le> length B" "q + w \<le> p \<or> p + length bs \<le> q"
  shows "take w (drop q (take p B @ bs @ drop (p + length bs) B)) = take w (drop q B)"
proof (cases "p + length bs \<le> q")
  case True
  then show ?thesis using drop_patch [OF assms(1) True] by simp
next
  case False
  with assms(2) have le: "q + w \<le> p" by simp
  have lp: "length (take p B) = p" using assms(1) by simp
  have "drop q (take p B @ bs @ drop (p + length bs) B)
      = drop q (take p B) @ bs @ drop (p + length bs) B"
    using le lp by simp
  moreover have "length (drop q (take p B)) = p - q" using lp by simp
  ultimately have "take w (drop q (take p B @ bs @ drop (p + length bs) B))
      = take w (drop q (take p B))"
    using le by simp
  also have "\<dots> = take w (drop q B)"
    using le by (simp add: drop_take min_def)
  finally show ?thesis .
qed

lemma slice_bytes_at:
  "slice w (bytes_at st p) k = take w (drop (snd p + k * w) (bufs st ! fst p))"
  by (simp add: slice_def bytes_at_def add.commute)

text \<open>
  With all three ranges inside their buffers, operands that hold values of \<open>T\<close>, and
  operands that the loop reads as they were at entry, the loop from \<open>i\<close> returns and has
  overwritten exactly the elements \<open>i\<close> to \<open>n - 1\<close> of the output, computed from the
  operands as they were at entry, also when the output is one of the operands.
\<close>

lemma loop_correct:
  assumes len: "\<forall>x. length (store T x) = sizeof T"
  shows "fst l < length (bufs st) \<Longrightarrow> fst r < length (bufs st) \<Longrightarrow> fst o' < length (bufs st) \<Longrightarrow>
     snd l + n * sizeof T \<le> length (bufs st ! fst l) \<Longrightarrow>
     snd r + n * sizeof T \<le> length (bufs st ! fst r) \<Longrightarrow>
     snd o' + n * sizeof T \<le> length (bufs st ! fst o') \<Longrightarrow> i \<le> n \<Longrightarrow>
     reads_entry_values l o' (n * sizeof T) \<Longrightarrow> reads_entry_values r o' (n * sizeof T) \<Longrightarrow>
     (\<forall>k. i \<le> k \<and> k < n \<longrightarrow> valid T (slice (sizeof T) (bytes_at st l) k)) \<Longrightarrow>
     (\<forall>k. i \<le> k \<and> k < n \<longrightarrow> valid T (slice (sizeof T) (bytes_at st r) k)) \<Longrightarrow>
     elementwise_loop T f l r o' i n st =
       (Inr (), st\<lparr>bufs := (bufs st)[fst o' := take (snd o' + i * sizeof T) (bufs st ! fst o')
           @ kernel_bytes T f (bytes_at st l) (bytes_at st r) i n
           @ drop (snd o' + n * sizeof T) (bufs st ! fst o')]\<rparr>)"
proof (induction "n - i" arbitrary: i st)
  case 0
  then have "i = n" by simp
  then show ?case by (simp add: kernel_bytes_def)
next
  case (Suc d)
  let ?w = "sizeof T"
  let ?Bo = "bufs st ! fst o'"
  let ?p = "snd o' + i * ?w"
  let ?x = "elem T (bytes_at st l) i"
  let ?y = "elem T (bytes_at st r) i"
  define bs where "bs = store T (f ?x ?y)"
  define B1 where "B1 = take ?p ?Bo @ bs @ drop (?p + ?w) ?Bo"
  define st1 where "st1 = st\<lparr>bufs := (bufs st)[fst o' := B1]\<rparr>"
  from Suc have lt: "i < n" by simp
  then have "Suc i * ?w \<le> n * ?w" by (intro mult_le_mono1) simp
  then have b: "i * ?w + ?w \<le> n * ?w" by simp
  have bl: "snd l + i * ?w + ?w \<le> length (bufs st ! fst l)"
    and br: "snd r + i * ?w + ?w \<le> length (bufs st ! fst r)"
    and bo: "?p + ?w \<le> length ?Bo"
    using b Suc.prems(4-6) by simp_all
  have lbs: "length bs = ?w" using len by (simp add: bs_def)
  have bo': "?p + length bs \<le> length ?Bo" using bo lbs by simp
  have vl: "valid T (slice ?w (bytes_at st l) i)" and vr: "valid T (slice ?w (bytes_at st r) i)"
    using Suc.prems(10,11) lt by simp_all
  have rd: "read_elem T st l i = Some ?x" "read_elem T st r i = Some ?y"
    using Suc.prems(1,2) bl br vl vr
    by (simp_all add: read_elem_def get_buf_def elem_def slice_bytes_at)
  have wr: "write_elem T st o' i (f ?x ?y) = Some st1"
    using Suc.prems(3) bo by (simp add: write_elem_def get_buf_def st1_def B1_def bs_def)
  have step: "elementwise_loop T f l r o' i n st = elementwise_loop T f l r o' (Suc i) n st1"
    using lt rd wr by (subst elementwise_loop.simps) simp
  have lenB1: "length B1 = length ?Bo" using bo lbs by (simp add: B1_def)
  have o1: "bufs st1 ! fst o' = B1" using Suc.prems(3) by (simp add: st1_def)
  have other: "\<And>b. b \<noteq> fst o' \<Longrightarrow> bufs st1 ! b = bufs st ! b" by (simp add: st1_def)
  have len1: "length (bufs st1) = length (bufs st)" by (simp add: st1_def)
  have lenb: "\<And>b. length (bufs st1 ! b) = length (bufs st ! b)"
    using o1 other lenB1 by metis
  have sl: "slice ?w (bytes_at st1 s) k = slice ?w (bytes_at st s) k"
    if s: "reads_entry_values s o' (n * ?w)" and k: "i < k" "k < n" for s k
  proof (cases "fst s = fst o'")
    case False
    then show ?thesis using other by (simp add: slice_bytes_at)
  next
    case True
    from k have k1: "Suc i * ?w \<le> k * ?w" and k2: "Suc k * ?w \<le> n * ?w"
      by (simp_all only: mult_le_mono1 Suc_leI)
    from s True have "snd o' \<le> snd s \<or> snd s + n * ?w \<le> snd o'"
      by (simp add: reads_entry_values_def)
    then have "snd s + k * ?w + ?w \<le> ?p \<or> ?p + length bs \<le> snd s + k * ?w"
      using k1 k2 lbs by auto
    from window_patch [OF bo' this] show ?thesis
      using True o1 lbs by (simp add: slice_bytes_at B1_def)
  qed
  have ke: "\<And>k. i < k \<Longrightarrow> k < n \<Longrightarrow>
      kernel_elem T f (bytes_at st1 l) (bytes_at st1 r) k = kernel_elem T f (bytes_at st l) (bytes_at st r) k"
    unfolding kernel_elem_def elem_def using sl Suc.prems(8,9) by simp
  have kb: "kernel_bytes T f (bytes_at st1 l) (bytes_at st1 r) (Suc i) n
      = kernel_bytes T f (bytes_at st l) (bytes_at st r) (Suc i) n"
    unfolding kernel_bytes_def using ke by (intro arg_cong [where f = concat] map_cong) simp_all
  have tk: "take (snd o' + Suc i * ?w) B1 = take ?p ?Bo @ bs"
    unfolding B1_def using take_patch [of ?p bs ?Bo] bo lbs by (simp add: add.commute add.left_commute)
  have dr: "drop (snd o' + n * ?w) B1 = drop (snd o' + n * ?w) ?Bo"
    unfolding B1_def using drop_patch [of ?p bs ?Bo "snd o' + n * ?w"] bo lbs b by simp
  have pre: "fst l < length (bufs st1)" "fst r < length (bufs st1)" "fst o' < length (bufs st1)"
    "snd l + n * ?w \<le> length (bufs st1 ! fst l)" "snd r + n * ?w \<le> length (bufs st1 ! fst r)"
    "snd o' + n * ?w \<le> length (bufs st1 ! fst o')"
    using Suc.prems(1-6) by (simp_all only: len1 lenb)
  have v1: "\<forall>k. Suc i \<le> k \<and> k < n \<longrightarrow> valid T (slice ?w (bytes_at st1 l) k)"
    "\<forall>k. Suc i \<le> k \<and> k < n \<longrightarrow> valid T (slice ?w (bytes_at st1 r) k)"
    using sl Suc.prems(8-11) by simp_all
  have d: "d = n - Suc i" using Suc.hyps(2) by simp
  have si: "Suc i \<le> n" using lt by simp
  have ih: "elementwise_loop T f l r o' (Suc i) n st1 =
       (Inr (), st1\<lparr>bufs := (bufs st1)[fst o' := take (snd o' + Suc i * ?w) (bufs st1 ! fst o')
           @ kernel_bytes T f (bytes_at st1 l) (bytes_at st1 r) (Suc i) n
           @ drop (snd o' + n * ?w) (bufs st1 ! fst o')]\<rparr>)"
    using Suc.hyps(1) [OF d pre si Suc.prems(8,9) v1] .
  have kbi: "kernel_bytes T f (bytes_at st l) (bytes_at st r) i n
      = bs @ kernel_bytes T f (bytes_at st l) (bytes_at st r) (Suc i) n"
    using lt by (simp add: kernel_bytes_def upt_conv_Cons kernel_elem_def bs_def)
  show ?case
    unfolding step ih o1 kb tk dr kbi by (simp add: st1_def)
qed

text \<open>Whatever happens, the loop changes nothing but the contents of buffers.\<close>

lemma loop_frame:
  "\<exists>B. snd (elementwise_loop T f l r o' i n st) = st\<lparr>bufs := B\<rparr> \<and> length B = length (bufs st)"
proof (induction T f l r o' i n st rule: elementwise_loop.induct)
  case (1 T f l r o' i n st)
  show ?case
  proof (cases "i < n")
    case False
    then have "snd (elementwise_loop T f l r o' i n st) = st\<lparr>bufs := bufs st\<rparr>" by simp
    then show ?thesis by blast
  next
    case True
    show ?thesis
    proof (cases "read_elem T st l i")
      case None
      with True have "snd (elementwise_loop T f l r o' i n st) = st\<lparr>bufs := bufs st\<rparr>" by simp
      then show ?thesis by blast
    next
      case (Some x)
      show ?thesis
      proof (cases "read_elem T st r i")
        case None
        with True Some have "snd (elementwise_loop T f l r o' i n st) = st\<lparr>bufs := bufs st\<rparr>" by simp
        then show ?thesis by blast
      next
        case y: (Some y)
        show ?thesis
        proof (cases "write_elem T st o' i (f x y)")
          case None
          with True Some y have "snd (elementwise_loop T f l r o' i n st) = st\<lparr>bufs := bufs st\<rparr>"
            by simp
          then show ?thesis by blast
        next
          case st1: (Some st1)
          then obtain B1 where B1: "st1 = st\<lparr>bufs := B1\<rparr>" "length B1 = length (bufs st)"
            by (auto simp: write_elem_def split: option.splits if_splits)
          from "1.IH" [OF True refl Some y st1] obtain B where
            "snd (elementwise_loop T f l r o' (Suc i) n st1) = st1\<lparr>bufs := B\<rparr>"
            "length B = length (bufs st1)" by blast
          with B1 True Some y st1 have
            "snd (elementwise_loop T f l r o' i n st) = st\<lparr>bufs := B\<rparr> \<and> length B = length (bufs st)"
            by simp
          then show ?thesis by blast
        qed
      qed
    qed
  qed
qed

lemma length_le_bytes: "length (le_bytes k v) = k"
  by (induction k arbitrary: v) simp_all

lemma le_nat_le_bytes: "le_nat (le_bytes k v) = v mod 256 ^ k"
proof (induction k arbitrary: v)
  case 0
  show ?case by simp
next
  case (Suc k)
  have "unat (word_of_nat (v mod 256) :: byte) = v mod 256"
    by (simp add: unat_of_nat)
  then have "le_nat (le_bytes (Suc k) v) = v mod 256 + 256 * ((v div 256) mod 256 ^ k)"
    using Suc by simp
  also have "\<dots> = v mod 256 ^ Suc k"
    by (simp add: mod_mult2_eq)
  finally show ?case .
qed

lemma load_store_word:
  fixes x :: "'a::len word"
  assumes "(2::nat) ^ LENGTH('a) = 256 ^ k"
  shows "load_word (store_word k x) = x"
proof -
  have "unat x < 2 ^ LENGTH('a)" by (rule unsigned_less)
  then have "unat x mod 256 ^ k = unat x" using assms by simp
  then show ?thesis by (simp add: load_word_def store_word_def le_nat_le_bytes)
qed

lemma length_store_word: "length (store_word k x) = k"
  by (simp add: store_word_def length_le_bytes)

lemma ctype_ok_bool: "ctype_ok T_bool"
  by (simp add: ctype_ok_def T_bool_def)

lemma ctype_ok_int8_t: "ctype_ok T_int8_t"
  by (simp add: ctype_ok_def T_int8_t_def length_store_word load_store_word)

lemma ctype_ok_int16_t: "ctype_ok T_int16_t"
  by (simp add: ctype_ok_def T_int16_t_def length_store_word load_store_word)

lemma ctype_ok_int32_t: "ctype_ok T_int32_t"
  by (simp add: ctype_ok_def T_int32_t_def length_store_word load_store_word)

lemma ctype_ok_int64_t: "ctype_ok T_int64_t"
  by (simp add: ctype_ok_def T_int64_t_def length_store_word load_store_word)

lemma ctype_ok_uint8_t: "ctype_ok T_uint8_t"
  by (simp add: ctype_ok_def T_uint8_t_def length_store_word load_store_word)

lemma ctype_ok_float: "ctype_ok (T_float env)"
  by (simp add: ctype_ok_def T_float_def length_store_word load_store_word)

lemma ctype_ok_double: "ctype_ok (T_double env)"
  by (simp add: ctype_ok_def T_double_def length_store_word load_store_word)

lemma c_add_bool: "c_add T_bool x y = (x \<or> y)"
  by (cases x; cases y) (simp_all add: T_bool_def)

lemma c_mul_bool: "c_mul T_bool x y = (x \<and> y)"
  by (cases x; cases y) (simp_all add: T_bool_def)

lemma c_add_int8_t: "c_add T_int8_t x y = x + y" and c_mul_int8_t: "c_mul T_int8_t x y = x * y"
  by (simp_all add: T_int8_t_def)
lemma c_add_int16_t: "c_add T_int16_t x y = x + y" and c_mul_int16_t: "c_mul T_int16_t x y = x * y"
  by (simp_all add: T_int16_t_def)
lemma c_add_int32_t: "c_add T_int32_t x y = x + y" and c_mul_int32_t: "c_mul T_int32_t x y = x * y"
  by (simp_all add: T_int32_t_def)
lemma c_add_int64_t: "c_add T_int64_t x y = x + y" and c_mul_int64_t: "c_mul T_int64_t x y = x * y"
  by (simp_all add: T_int64_t_def)
lemma c_add_uint8_t: "c_add T_uint8_t x y = x + y" and c_mul_uint8_t: "c_mul T_uint8_t x y = x * y"
  by (simp_all add: T_uint8_t_def)

lemma length_kernel_bytes:
  "\<forall>x. length (store T x) = sizeof T \<Longrightarrow> length (kernel_bytes T f bl br i n) = (n - i) * sizeof T"
  by (induction n) (simp_all add: kernel_bytes_def kernel_elem_def Suc_diff_le)

lemma slice_kernel_bytes:
  assumes len: "\<forall>x. length (store T x) = sizeof T"
  shows "k < n \<Longrightarrow> slice (sizeof T) (kernel_bytes T f bl br 0 n @ rest) k = kernel_elem T f bl br k"
proof (induction n arbitrary: rest)
  case 0
  then show ?case by simp
next
  case (Suc n)
  have split: "kernel_bytes T f bl br 0 (Suc n) = kernel_bytes T f bl br 0 n @ kernel_elem T f bl br n"
    by (simp add: kernel_bytes_def)
  show ?case
  proof (cases "k < n")
    case True
    then show ?thesis using Suc.IH [of "kernel_elem T f bl br n @ rest"] by (simp add: split)
  next
    case False
    with Suc.prems have "k = n" by simp
    moreover have "length (kernel_bytes T f bl br 0 n) = n * sizeof T"
      using length_kernel_bytes [OF len, of f bl br 0 n] by simp
    moreover have "length (kernel_elem T f bl br n) = sizeof T"
      using len by (simp add: kernel_elem_def)
    ultimately show ?thesis by (simp add: split slice_def)
  qed
qed

lemma elem_kernel_bytes:
  assumes "ctype_ok T" "k < n"
  shows "elem T (kernel_bytes T f bl br 0 n @ rest) k = f (elem T bl k) (elem T br k)"
  using assms slice_kernel_bytes [of T k n f bl br rest]
  by (simp add: ctype_ok_def elem_def kernel_elem_def)

lemma loop_result:
  obtains res B where "elementwise_loop T f l r o' i n st = (res, st\<lparr>bufs := B\<rparr>)"
    and "length B = length (bufs st)"
  using loop_frame [of T f l r o' i n st] by (metis prod.collapse)

lemma graph_step:
  assumes "get_array st out = Some ou" "length B = length (bufs st)"
  shows "bindM (CreateNewNode out) (\<lambda>out_node.
           bindM (make_OpNode nm ns) (\<lambda>op_node. set_next_node out_node op_node)) (st\<lparr>bufs := B\<rparr>)
         = (Inr (), st\<lparr>bufs := B,
              arrays := (arrays st)[out := ou\<lparr>node := length (anodes st)\<rparr>],
              anodes := anodes st @ [Some (length (onodes st))],
              onodes := onodes st @ [\<lparr>name = nm, next_nodes = ns\<rparr>]\<rparr>)"
  using assms
  by (simp add: CreateNewNode_def make_ArrayNode_def make_OpNode_def set_next_node_def
      bindM_def get_array_def split: if_splits)

lemma Add_T_cases:
  assumes "Add_T T this rhs out st = (res, st')"
  shows "(\<exists>e. res = Inl e \<and> same_graph st st') \<or> (res = Inr () \<and> produced ''add'' this rhs out st st')"
proof (cases "get_array st this")
  case None
  with assms show ?thesis by (auto simp: Add_T_def same_graph_def)
next
  case l: (Some lhs)
  show ?thesis
  proof (cases "get_array st rhs")
    case None
    with assms l show ?thesis by (auto simp: Add_T_def same_graph_def)
  next
    case r: (Some r)
    show ?thesis
    proof (cases "get_array st out")
      case None
      with assms l r show ?thesis by (auto simp: Add_T_def same_graph_def)
    next
      case ou: (Some ou)
      obtain res1 B where lp: "elementwise_loop T (c_add T) (data lhs) (data r) (data ou) 0
            (total_size (shape lhs)) st = (res1, st\<lparr>bufs := B\<rparr>)"
        and lB: "length B = length (bufs st)" by (rule loop_result)
      show ?thesis
      proof (cases res1)
        case (Inl e)
        with assms l r ou lp lB show ?thesis
          by (auto simp: Add_T_def bindM_def same_graph_def)
      next
        case (Inr u)
        have "Add_T T this rhs out st = (Inr (), st\<lparr>bufs := B,
              arrays := (arrays st)[out := ou\<lparr>node := length (anodes st)\<rparr>],
              anodes := anodes st @ [Some (length (onodes st))],
              onodes := onodes st @ [\<lparr>name = ''add'', next_nodes = [node lhs, node r]\<rparr>]\<rparr>)"
          using l r ou lp Inr graph_step [OF ou lB]
          by (simp add: Add_T_def bindM_def [of "elementwise_loop T (c_add T) (data lhs) (data r)
                (data ou) 0 (total_size (shape lhs))"])
        with assms l r ou lB show ?thesis
          by (auto simp: produced_def get_array_def split: if_splits)
      qed
    qed
  qed
qed

lemma Add_T_ok:
  assumes len: "\<forall>x. length (store T x) = sizeof T"
    and l: "get_array st this = Some lhs" and r: "get_array st rhs = Some r"
    and ou: "get_array st out = Some ou"
    and "in_buffer st (data lhs) (total_size (shape lhs) * sizeof T)"
    and "in_buffer st (data r) (total_size (shape lhs) * sizeof T)"
    and "in_buffer st (data ou) (total_size (shape lhs) * sizeof T)"
    and "reads_entry_values (data lhs) (data ou) (total_size (shape lhs) * sizeof T)"
    and "reads_entry_values (data r) (data ou) (total_size (shape lhs) * sizeof T)"
    and "all_valid T (bytes_at st (data lhs)) (total_size (shape lhs))"
    and "all_valid T (bytes_at st (data r)) (total_size (shape lhs))"
  shows "Add_T T this rhs out st = (Inr (), st\<lparr>bufs := (bufs st)[fst (data ou) :=
              take (snd (data ou)) (bufs st ! fst (data ou))
              @ kernel_bytes T (c_add T) (bytes_at st (data lhs)) (bytes_at st (data r)) 0
                  (total_size (shape lhs))
              @ drop (snd (data ou) + total_size (shape lhs) * sizeof T) (bufs st ! fst (data ou))],
            arrays := (arrays st)[out := ou\<lparr>node := length (anodes st)\<rparr>],
            anodes := anodes st @ [Some (length (onodes st))],
            onodes := onodes st @ [\<lparr>name = ''add'', next_nodes = [node lhs, node r]\<rparr>]\<rparr>)"
proof -
  let ?n = "total_size (shape lhs)"
  let ?B = "(bufs st)[fst (data ou) :=
              take (snd (data ou)) (bufs st ! fst (data ou))
              @ kernel_bytes T (c_add T) (bytes_at st (data lhs)) (bytes_at st (data r)) 0 ?n
              @ drop (snd (data ou) + ?n * sizeof T) (bufs st ! fst (data ou))]"
  have v: "\<forall>k. 0 \<le> k \<and> k < ?n \<longrightarrow> valid T (slice (sizeof T) (bytes_at st (data lhs)) k)"
    "\<forall>k. 0 \<le> k \<and> k < ?n \<longrightarrow> valid T (slice (sizeof T) (bytes_at st (data r)) k)"
    using assms(10,11) by (simp_all add: all_valid_def)
  have lp: "elementwise_loop T (c_add T) (data lhs) (data r) (data ou) 0 ?n st
      = (Inr (), st\<lparr>bufs := ?B\<rparr>)"
    using loop_correct [OF len, where i = 0 and f = "c_add T" and l = "data lhs" and r = "data r"
        and o' = "data ou" and n = ?n and st = st] assms(5-9) v
    by (simp add: in_buffer_def)
  have lB: "length ?B = length (bufs st)" by simp
  show ?thesis
    using l r ou lp graph_step [OF ou lB]
    by (simp add: Add_T_def bindM_def [of "elementwise_loop T (c_add T) (data lhs) (data r)
          (data ou) 0 (total_size (shape lhs))"])
qed

lemma Mul_T_cases:
  assumes "Mul_T T this rhs out st = (res, st')"
  shows "(\<exists>e. res = Inl e \<and> same_graph st st') \<or> (res = Inr () \<and> produced ''mul'' this rhs out st st')"
proof (cases "get_array st this")
  case None
  with assms show ?thesis by (auto simp: Mul_T_def same_graph_def)
next
  case l: (Some lhs)
  show ?thesis
  proof (cases "get_array st rhs")
    case None
    with assms l show ?thesis by (auto simp: Mul_T_def same_graph_def)
  next
    case r: (Some r)
    show ?thesis
    proof (cases "get_array st out")
      case None
      with assms l r show ?thesis by (auto simp: Mul_T_def same_graph_def)
    next
      case ou: (Some ou)
      obtain res1 B where lp: "elementwise_loop T (c_mul T) (data lhs) (data r) (data ou) 0
            (total_size (shape lhs)) st = (res1, st\<lparr>bufs := B\<rparr>)"
        and lB: "length B = length (bufs st)" by (rule loop_result)
      show ?thesis
      proof (cases res1)
        case (Inl e)
        with assms l r ou lp lB show ?thesis
          by (auto simp: Mul_T_def bindM_def same_graph_def)
      next
        case (Inr u)
        have "Mul_T T this rhs out st = (Inr (), st\<lparr>bufs := B,
              arrays := (arrays st)[out := ou\<lparr>node := length (anodes st)\<rparr>],
              anodes := anodes st @ [Some (length (onodes st))],
              onodes := onodes st @ [\<lparr>name = ''mul'', next_nodes = [node lhs, node r]\<rparr>]\<rparr>)"
          using l r ou lp Inr graph_step [OF ou lB]
          by (simp add: Mul_T_def bindM_def [of "elementwise_loop T (c_mul T) (data lhs) (data r)
                (data ou) 0 (total_size (shape lhs))"])
        with assms l r ou lB show ?thesis
          by (auto simp: produced_def get_array_def split: if_splits)
      qed
    qed
  qed
qed

lemma Mul_T_ok:
  assumes len: "\<forall>x. length (store T x) = sizeof T"
    and l: "get_array st this = Some lhs" and r: "get_array st rhs = Some r"
    and ou: "get_array st out = Some ou"
    and "in_buffer st (data lhs) (total_size (shape lhs) * sizeof T)"
    and "in_buffer st (data r) (total_size (shape lhs) * sizeof T)"
    and "in_buffer st (data ou) (total_size (shape lhs) * sizeof T)"
    and "reads_entry_values (data lhs) (data ou) (total_size (shape lhs) * sizeof T)"
    and "reads_entry_values (data r) (data ou) (total_size (shape lhs) * sizeof T)"
    and "all_valid T (bytes_at st (data lhs)) (total_size (shape lhs))"
    and "all_valid T (bytes_at st (data r)) (total_size (shape lhs))"
  shows "Mul_T T this rhs out st = (Inr (), st\<lparr>bufs := (bufs st)[fst (data ou) :=
              take (snd (data ou)) (bufs st ! fst (data ou))
              @ kernel_bytes T (c_mul T) (bytes_at st (data lhs)) (bytes_at st (data r)) 0
                  (total_size (shape lhs))
              @ drop (snd (data ou) + total_size (shape lhs) * sizeof T) (bufs st ! fst (data ou))],
            arrays := (arrays st)[out := ou\<lparr>node := length (anodes st)\<rparr>],
            anodes := anodes st @ [Some (length (onodes st))],
            onodes := onodes st @ [\<lparr>name = ''mul'', next_nodes = [node lhs, node r]\<rparr>]\<rparr>)"
proof -
  let ?n = "total_size (shape lhs)"
  let ?B = "(bufs st)[fst (data ou) :=
              take (snd (data ou)) (bufs st ! fst (data ou))
              @ kernel_bytes T (c_mul T) (bytes_at st (data lhs)) (bytes_at st (data r)) 0 ?n
              @ drop (snd (data ou) + ?n * sizeof T) (bufs st ! fst (data ou))]"
  have v: "\<forall>k. 0 \<le> k \<and> k < ?n \<longrightarrow> valid T (slice (sizeof T) (bytes_at st (data lhs)) k)"
    "\<forall>k. 0 \<le> k \<and> k < ?n \<longrightarrow> valid T (slice (sizeof T) (bytes_at st (data r)) k)"
    using assms(10,11) by (simp_all add: all_valid_def)
  have lp: "elementwise_loop T (c_mul T) (data lhs) (data r) (data ou) 0 ?n st
      = (Inr (), st\<lparr>bufs := ?B\<rparr>)"
    using loop_correct [OF len, where i = 0 and f = "c_mul T" and l = "data lhs" and r = "data r"
        and o' = "data ou" and n = ?n and st = st] assms(5-9) v
    by (simp add: in_buffer_def)
  have lB: "length ?B = length (bufs st)" by simp
  show ?thesis
    using l r ou lp graph_step [OF ou lB]
    by (simp add: Mul_T_def bindM_def [of "elementwise_loop T (c_mul T) (data lhs) (data r)
          (data ou) 0 (total_size (shape lhs))"])
qed

lemma same_graph_refl: "same_graph st st"
  by (simp add: same_graph_def)

lemma sizeof_simps:
  "sizeof T_bool = 1" "sizeof T_int8_t = 1" "sizeof T_int16_t = 2" "sizeof T_int32_t = 4"
  "sizeof T_int64_t = 8" "sizeof T_uint8_t = 1" "sizeof (T_float env) = 4" "sizeof (T_double env) = 8"
  by (simp_all add: T_bool_def T_int8_t_def T_int16_t_def T_int32_t_def T_int64_t_def
      T_uint8_t_def T_float_def T_double_def)

lemma store_lengths:
  "\<forall>x. length (store T_bool x) = sizeof T_bool"
  "\<forall>x. length (store T_int8_t x) = sizeof T_int8_t"
  "\<forall>x. length (store T_int16_t x) = sizeof T_int16_t"
  "\<forall>x. length (store T_int32_t x) = sizeof T_int32_t"
  "\<forall>x. length (store T_int64_t x) = sizeof T_int64_t"
  "\<forall>x. length (store T_uint8_t x) = sizeof T_uint8_t"
  "\<forall>x. length (store (T_float env) x) = sizeof (T_float env)"
  "\<forall>x. length (store (T_double env) x) = sizeof (T_double env)"
  using ctype_ok_bool ctype_ok_int8_t ctype_ok_int16_t ctype_ok_int32_t ctype_ok_int64_t
    ctype_ok_uint8_t ctype_ok_float ctype_ok_double
  by (simp_all add: ctype_ok_def)

lemma Add_out_dtype_mismatch:
  assumes "get_array st this = Some lhs" "get_array st rhs = Some r" "dtype lhs \<noteq> dtype r"
  shows "Add_out env this rhs out st = (Inl DtypeMismatch, st)"
  using assms by (simp add: Add_out_def bindM_def CheckEqual_dtype_def)

lemma Add_out_shape_mismatch:
  assumes "get_array st this = Some lhs" "get_array st rhs = Some r"
    "dtype lhs = dtype r" "shape lhs \<noteq> shape r"
  shows "Add_out env this rhs out st = (Inl ShapeMismatch, st)"
  using assms by (simp add: Add_out_def bindM_def CheckEqual_dtype_def CheckEqual_shape_def)

lemma Add_out_dispatch:
  assumes "get_array st this = Some lhs" "get_array st rhs = Some r"
    "dtype lhs = dtype r" "shape lhs = shape r"
  shows "Add_out env this rhs out st =
     (case dtype lhs of
        kBool \<Rightarrow> Add_T T_bool this rhs out st
      | kInt8 \<Rightarrow> Add_T T_int8_t this rhs out st
      | kInt16 \<Rightarrow> Add_T T_int16_t this rhs out st
      | kInt32 \<Rightarrow> Add_T T_int32_t this rhs out st
      | kInt64 \<Rightarrow> Add_T T_int64_t this rhs out st
      | kUInt8 \<Rightarrow> Add_T T_uint8_t this rhs out st
      | kFloat32 \<Rightarrow> Add_T (T_float env) this rhs out st
      | kFloat64 \<Rightarrow> Add_T (T_double env) this rhs out st)"
  using assms
  by (simp add: Add_out_def bindM_def CheckEqual_dtype_def CheckEqual_shape_def split: Dtype.splits)

lemma Add_out_cases:
  assumes "Add_out env this rhs out st = (res, st')"
  shows "(\<exists>e. res = Inl e \<and> same_graph st st') \<or> (res = Inr () \<and> produced ''add'' this rhs out st st')"
proof (cases "get_array st this")
  case None
  with assms show ?thesis by (auto simp: Add_out_def same_graph_def)
next
  case l: (Some lhs)
  show ?thesis
  proof (cases "get_array st rhs")
    case None
    with assms l show ?thesis by (auto simp: Add_out_def same_graph_def)
  next
    case r: (Some r)
    show ?thesis
    proof (cases "dtype lhs = dtype r")
      case False
      with assms l r show ?thesis by (auto simp: Add_out_dtype_mismatch same_graph_def)
    next
      case dt: True
      show ?thesis
      proof (cases "shape lhs = shape r")
        case False
        with assms l r dt show ?thesis by (auto simp: Add_out_shape_mismatch same_graph_def)
      next
        case True
        from assms show ?thesis
          unfolding Add_out_dispatch [OF l r dt True]
          by (cases "dtype lhs") (auto dest: Add_T_cases)
      qed
    qed
  qed
qed

text \<open>
  The in-place form on operands of one dtype and shape, with the three ranges of
  \<open>total_size\<close> elements of that dtype inside their buffers, operands that hold values
  of the dtype, and operands that the loop reads as they were at entry.
\<close>

lemma Add_out_ok:
  assumes l: "get_array st this = Some lhs" and r: "get_array st rhs = Some r"
    and ou: "get_array st out = Some ou"
    and dt: "dtype lhs = dtype r" and sh: "shape lhs = shape r"
    and "in_buffer st (data lhs) (total_size (shape lhs) * GetElementSize (dtype lhs))"
    and "in_buffer st (data r) (total_size (shape lhs) * GetElementSize (dtype lhs))"
    and "in_buffer st (data ou) (total_size (shape lhs) * GetElementSize (dtype lhs))"
    and "reads_entry_values (data lhs) (data ou) (total_size (shape lhs) * GetElementSize (dtype lhs))"
    and "reads_entry_values (data r) (data ou) (total_size (shape lhs) * GetElementSize (dtype lhs))"
    and "holds_values env (dtype lhs) (bytes_at st (data lhs)) (total_size (shape lhs))"
    and "holds_values env (dtype lhs) (bytes_at st (data r)) (total_size (shape lhs))"
  shows "Add_out env this rhs out st = (Inr (), st\<lparr>bufs := (bufs st)[fst (data ou) :=
              take (snd (data ou)) (bufs st ! fst (data ou))
              @ add_bytes env (dtype lhs) (bytes_at st (data lhs)) (bytes_at st (data r))
                  (total_size (shape lhs))
              @ drop (snd (data ou) + total_size (shape lhs) * GetElementSize (dtype lhs))
                  (bufs st ! fst (data ou))],
            arrays := (arrays st)[out := ou\<lparr>node := length (anodes st)\<rparr>],
            anodes := anodes st @ [Some (length (onodes st))],
            onodes := onodes st @ [\<lparr>name = ''add'', next_nodes = [node lhs, node r]\<rparr>]\<rparr>)"
proof (cases "dtype lhs")
  case kBool
  then show ?thesis
    using assms(6-12) Add_T_ok [OF store_lengths(1) l r ou]
    unfolding Add_out_dispatch [OF l r dt sh] by (simp add: add_bytes_def holds_values_def sizeof_simps)
next
  case kInt8
  then show ?thesis
    using assms(6-12) Add_T_ok [OF store_lengths(2) l r ou]
    unfolding Add_out_dispatch [OF l r dt sh] by (simp add: add_bytes_def holds_values_def sizeof_simps)
next
  case kInt16
  then show ?thesis
    using assms(6-12) Add_T_ok [OF store_lengths(3) l r ou]
    unfolding Add_out_dispatch [OF l r dt sh] by (simp add: add_bytes_def holds_values_def sizeof_simps)
next
  case kInt32
  then show ?thesis
    using assms(6-12) Add_T_ok [OF store_lengths(4) l r ou]
    unfolding Add_out_dispatch [OF l r dt sh] by (simp add: add_bytes_def holds_values_def sizeof_simps)
next
  case kInt64
  then show ?thesis
    using assms(6-12) Add_T_ok [OF store_lengths(5) l r ou]
    unfolding Add_out_dispatch [OF l r dt sh] by (simp add: add_bytes_def holds_values_def sizeof_simps)
next
  case kUInt8
  then show ?thesis
    using assms(6-12) Add_T_ok [OF store_lengths(6) l r ou]
    unfolding Add_out_dispatch [OF l r dt sh] by (simp add: add_bytes_def holds_values_def sizeof_simps)
next
  case kFloat32
  then show ?thesis
    using assms(6-12) Add_T_ok [OF store_lengths(7) l r ou, of env]
    unfolding Add_out_dispatch [OF l r dt sh] by (simp add: add_bytes_def holds_values_def sizeof_simps)
next
  case kFloat64
  then show ?thesis
    using assms(6-12) Add_T_ok [OF store_lengths(8) l r ou, of env]
    unfolding Add_out_dispatch [OF l r dt sh] by (simp add: add_bytes_def holds_values_def sizeof_simps)
qed

lemma Mul_out_dtype_mismatch:
  assumes "get_array st this = Some lhs" "get_array st rhs = Some r" "dtype lhs \<noteq> dtype r"
  shows "Mul_out env this rhs out st = (Inl DtypeMismatch, st)"
  using assms by (simp add: Mul_out_def bindM_def CheckEqual_dtype_def)

lemma Mul_out_shape_mismatch:
  assumes "get_array st this = Some lhs" "get_array st rhs = Some r"
    "dtype lhs = dtype r" "shape lhs \<noteq> shape r"
  shows "Mul_out env this rhs out st = (Inl ShapeMismatch, st)"
  using assms by (simp add: Mul_out_def bindM_def CheckEqual_dtype_def CheckEqual_shape_def)

lemma Mul_out_dispatch:
  assumes "get_array st this = Some lhs" "get_array st rhs = Some r"
    "dtype lhs = dtype r" "shape lhs = shape r"
  shows "Mul_out env this rhs out st =
     (case dtype lhs of
        kBool \<Rightarrow> Mul_T T_bool this rhs out st
      | kInt8 \<Rightarrow> Mul_T T_int8_t this rhs out st
      | kInt16 \<Rightarrow> Mul_T T_int16_t this rhs out st
      | kInt32 \<Rightarrow> Mul_T T_int32_t this rhs out st
      | kInt64 \<Rightarrow> Mul_T T_int64_t this rhs out st
      | kUInt8 \<Rightarrow> Mul_T T_uint8_t this rhs out st
      | kFloat32 \<Rightarrow> Mul_T (T_float env) this rhs out st
      | kFloat64 \<Rightarrow> Mul_T (T_double env) this rhs out st)"
  using assms
  by (simp add: Mul_out_def bindM_def CheckEqual_dtype_def CheckEqual_shape_def split: Dtype.splits)

lemma Mul_out_cases:
  assumes "Mul_out env this rhs out st = (res, st')"
  shows "(\<exists>e. res = Inl e \<and> same_graph st st') \<or> (res = Inr () \<and> produced ''mul'' this rhs out st st')"
proof (cases "get_array st this")
  case None
  with assms show ?thesis by (auto simp: Mul_out_def same_graph_def)
next
  case l: (Some lhs)
  show ?thesis
  proof (cases "get_array st rhs")
    case None
    with assms l show ?thesis by (auto simp: Mul_out_def same_graph_def)
  next
    case r: (Some r)
    show ?thesis
    proof (cases "dtype lhs = dtype r")
      case False
      with assms l r show ?thesis by (auto simp: Mul_out_dtype_mismatch same_graph_def)
    next
      case dt: True
      show ?thesis
      proof (cases "shape lhs = shape r")
        case False
        with assms l r dt show ?thesis by (auto simp: Mul_out_shape_mismatch same_graph_def)
      next
        case True
        from assms show ?thesis
          unfolding Mul_out_dispatch [OF l r dt True]
          by (cases "dtype lhs") (auto dest: Mul_T_cases)
      qed
    qed
  qed
qed

text \<open>
  The in-place form on operands of one dtype and shape, with the three ranges of
  \<open>total_size\<close> elements of that dtype inside their buffers, operands that hold values
  of the dtype, and operands that the loop reads as they were at entry.
\<close>

lemma Mul_out_ok:
  assumes l: "get_array st this = Some lhs" and r: "get_array st rhs = Some r"
    and ou: "get_array st out = Some ou"
    and dt: "dtype lhs = dtype r" and sh: "shape lhs = shape r"
    and "in_buffer st (data lhs) (total_size (shape lhs) * GetElementSize (dtype lhs))"
    and "in_buffer st (data r) (total_size (shape lhs) * GetElementSize (dtype lhs))"
    and "in_buffer st (data ou) (total_size (shape lhs) * GetElementSize (dtype lhs))"
    and "reads_entry_values (data lhs) (data ou) (total_size (shape lhs) * GetElementSize (dtype lhs))"
    and "reads_entry_values (data r) (data ou) (total_size (shape lhs) * GetElementSize (dtype lhs))"
    and "holds_values env (dtype lhs) (bytes_at st (data lhs)) (total_size (shape lhs))"
    and "holds_values env (dtype lhs) (bytes_at st (data r)) (total_size (shape lhs))"
  shows "Mul_out env this rhs out st = (Inr (), st\<lparr>bufs := (bufs st)[fst (data ou) :=
              take (snd (data ou)) (bufs st ! fst (data ou))
              @ mul_bytes env (dtype lhs) (bytes_at st (data lhs)) (bytes_at st (data r))
                  (total_size (shape lhs))
              @ drop (snd (data ou) + total_size (shape lhs) * GetElementSize (dtype lhs))
                  (bufs st ! fst (data ou))],
            arrays := (arrays st)[out := ou\<lparr>node := length (anodes st)\<rparr>],
            anodes := anodes st @ [Some (length (onodes st))],
            onodes := onodes st @ [\<lparr>name = ''mul'', next_nodes = [node lhs, node r]\<rparr>]\<rparr>)"
proof (cases "dtype lhs")
  case kBool
  then show ?thesis
    using assms(6-12) Mul_T_ok [OF store_lengths(1) l r ou]
    unfolding Mul_out_dispatch [OF l r dt sh] by (simp add: mul_bytes_def holds_values_def sizeof_simps)
next
  case kInt8
  then show ?thesis
    using assms(6-12) Mul_T_ok [OF store_lengths(2) l r ou]
    unfolding Mul_out_dispatch [OF l r dt sh] by (simp add: mul_bytes_def holds_values_def sizeof_simps)
next
  case kInt16
  then show ?thesis
    using assms(6-12) Mul_T_ok [OF store_lengths(3) l r ou]
    unfolding Mul_out_dispatch [OF l r dt sh] by (simp add: mul_bytes_def holds_values_def sizeof_simps)
next
  case kInt32
  then show ?thesis
    using assms(6-12) Mul_T_ok [OF store_lengths(4) l r ou]
    unfolding Mul_out_dispatch [OF l r dt sh] by (simp add: mul_bytes_def holds_values_def sizeof_simps)
next
  case kInt64
  then show ?thesis
    using assms(6-12) Mul_T_ok [OF store_lengths(5) l r ou]
    unfolding Mul_out_dispatch [OF l r dt sh] by (simp add: mul_bytes_def holds_values_def sizeof_simps)
next
  case kUInt8
  then show ?thesis
    using assms(6-12) Mul_T_ok [OF store_lengths(6) l r ou]
    unfolding Mul_out_dispatch [OF l r dt sh] by (simp add: mul_bytes_def holds_values_def sizeof_simps)
next
  case kFloat32
  then show ?thesis
    using assms(6-12) Mul_T_ok [OF store_lengths(7) l r ou, of env]
    unfolding Mul_out_dispatch [OF l r dt sh] by (simp add: mul_bytes_def holds_values_def sizeof_simps)
next
  case kFloat64
  then show ?thesis
    using assms(6-12) Mul_T_ok [OF store_lengths(8) l r ou, of env]
    unfolding Mul_out_dispatch [OF l r dt sh] by (simp add: mul_bytes_def holds_values_def sizeof_simps)
qed

subsection \<open>Sums and products, element by element\<close>

lemma is_sum_add_bytes: "is_sum env dt bl br (add_bytes env dt bl br n @ rest) n"
proof (cases dt)
  case kBool
  then show ?thesis
    by (simp add: is_sum_def add_bytes_def elem_kernel_bytes [OF ctype_ok_bool] c_add_bool)
next
  case kInt8
  then show ?thesis
    by (simp add: is_sum_def add_bytes_def elem_kernel_bytes [OF ctype_ok_int8_t] c_add_int8_t)
next
  case kInt16
  then show ?thesis
    by (simp add: is_sum_def add_bytes_def elem_kernel_bytes [OF ctype_ok_int16_t] c_add_int16_t)
next
  case kInt32
  then show ?thesis
    by (simp add: is_sum_def add_bytes_def elem_kernel_bytes [OF ctype_ok_int32_t] c_add_int32_t)
next
  case kInt64
  then show ?thesis
    by (simp add: is_sum_def add_bytes_def elem_kernel_bytes [OF ctype_ok_int64_t] c_add_int64_t)
next
  case kUInt8
  then show ?thesis
    by (simp add: is_sum_def add_bytes_def elem_kernel_bytes [OF ctype_ok_uint8_t] c_add_uint8_t)
next
  case kFloat32
  then show ?thesis
    by (simp add: is_sum_def add_bytes_def elem_kernel_bytes [OF ctype_ok_float]) (simp add: T_float_def)
next
  case kFloat64
  then show ?thesis
    by (simp add: is_sum_def add_bytes_def elem_kernel_bytes [OF ctype_ok_double]) (simp add: T_double_def)
qed

lemma is_product_mul_bytes: "is_product env dt bl br (mul_bytes env dt bl br n @ rest) n"
proof (cases dt)
  case kBool
  then show ?thesis
    by (simp add: is_product_def mul_bytes_def elem_kernel_bytes [OF ctype_ok_bool] c_mul_bool)
next
  case kInt8
  then show ?thesis
    by (simp add: is_product_def mul_bytes_def elem_kernel_bytes [OF ctype_ok_int8_t] c_mul_int8_t)
next
  case kInt16
  then show ?thesis
    by (simp add: is_product_def mul_bytes_def elem_kernel_bytes [OF ctype_ok_int16_t] c_mul_int16_t)
next
  case kInt32
  then show ?thesis
    by (simp add: is_product_def mul_bytes_def elem_kernel_bytes [OF ctype_ok_int32_t] c_mul_int32_t)
next
  case kInt64
  then show ?thesis
    by (simp add: is_product_def mul_bytes_def elem_kernel_bytes [OF ctype_ok_int64_t] c_mul_int64_t)
next
  case kUInt8
  then show ?thesis
    by (simp add: is_product_def mul_bytes_def elem_kernel_bytes [OF ctype_ok_uint8_t] c_mul_uint8_t)
next
  case kFloat32
  then show ?thesis
    by (simp add: is_product_def mul_bytes_def elem_kernel_bytes [OF ctype_ok_float]) (simp add: T_float_def)
next
  case kFloat64
  then show ?thesis
    by (simp add: is_product_def mul_bytes_def elem_kernel_bytes [OF ctype_ok_double]) (simp add: T_double_def)
qed

lemma length_add_bytes: "length (add_bytes env dt bl br n) = n * GetElementSize dt"
  using store_lengths
  by (cases dt) (simp_all add: add_bytes_def length_kernel_bytes sizeof_simps)

lemma length_mul_bytes: "length (mul_bytes env dt bl br n) = n * GetElementSize dt"
  using store_lengths
  by (cases dt) (simp_all add: mul_bytes_def length_kernel_bytes sizeof_simps)

subsection \<open>Construction\<close>

lemma Array_ctor_cpu:
  assumes "device st = Cpu"
  shows "Array_ctor env shp dt dat off st =
     (Inr (length (arrays st)),
      st\<lparr>anodes := anodes st @ [None],
         arrays := arrays st @ [\<lparr>shape = shp, is_contiguous = True, dtype = dt, data = dat,
                                 offset = off, node = length (anodes st)\<rparr>]\<rparr>)"
  using assms by (simp add: Array_ctor_def bindM_def make_ArrayNode_def)

lemma Array_ctor_cuda:
  assumes "device st = Cuda" "enable_cuda env"
    "cuda_malloc_ok env (total_size shp * GetElementSize dt)"
    "in_buffer st dat (total_size shp * GetElementSize dt)"
  shows "Array_ctor env shp dt dat off st =
     (Inr (length (arrays st)),
      st\<lparr>anodes := anodes st @ [None],
         bufs := bufs st @ [take (total_size shp * GetElementSize dt) (bytes_at st dat)],
         arrays := arrays st @ [\<lparr>shape = shp, is_contiguous = True, dtype = dt,
                                 data = (length (bufs st), 0), offset = off,
                                 node = length (anodes st)\<rparr>]\<rparr>)"
  using assms
  by (simp add: Array_ctor_def bindM_def make_ArrayNode_def AllocateCudaManaged_def get_buf_def
      in_buffer_def bytes_at_def)

lemma Array_ctor_cases:
  assumes "Array_ctor env shp dt dat off st = (res, st')"
  shows "constructed st st' \<and>
     ((\<exists>e. res = Inl e \<and> arrays st' = arrays st) \<or>
      (res = Inr (length (arrays st)) \<and> length (arrays st') = Suc (length (arrays st))))"
  using assms
  by (auto simp: Array_ctor_def bindM_def make_ArrayNode_def AllocateCudaManaged_def get_buf_def
      constructed_def Let_def split: if_splits option.splits)

subsection \<open>The out-of-place forms\<close>

lemma Add_ok_cpu:
  assumes l: "get_array st this = Some lhs" and r: "get_array st rhs = Some r"
    and dt: "dtype lhs = dtype r" and sh: "shape lhs = shape r"
    and wl: "wf_array st lhs" and wr: "wf_array st r" and dev: "device st = Cpu"
    and hl: "holds_values env (dtype lhs) (bytes_at st (data lhs)) (total_size (shape lhs))"
    and hr: "holds_values env (dtype lhs) (bytes_at st (data r)) (total_size (shape lhs))"
  shows "Add env this rhs st =
     (Inr (length (arrays st)),
      st\<lparr>bufs := bufs st @ [add_bytes env (dtype lhs) (bytes_at st (data lhs)) (bytes_at st (data r))
                               (total_size (shape lhs))],
         arrays := arrays st @ [\<lparr>shape = shape lhs, is_contiguous = True, dtype = dtype lhs,
                                 data = (length (bufs st), 0), offset = 0,
                                 node = Suc (length (anodes st))\<rparr>],
         anodes := anodes st @ [None, Some (length (onodes st))],
         onodes := onodes st @ [\<lparr>name = ''add'', next_nodes = [node lhs, node r]\<rparr>]\<rparr>)"
proof -
  let ?n = "total_size (shape lhs)"
  let ?w = "GetElementSize (dtype lhs)"
  let ?zs = "replicate (total_bytes lhs) (0 :: byte)"
  let ?out = "\<lparr>shape = shape lhs, is_contiguous = True, dtype = dtype lhs,
                data = (length (bufs st), 0), offset = 0, node = length (anodes st)\<rparr>"
  define st2 where "st2 = st\<lparr>bufs := bufs st @ [?zs], anodes := anodes st @ [None],
                            arrays := arrays st @ [?out]\<rparr>"
  have mk: "make_unique (total_bytes lhs) st = (Inr (length (bufs st), 0), st\<lparr>bufs := bufs st @ [?zs]\<rparr>)"
    by (simp add: make_unique_def)
  have ct: "Array_ctor env (shape lhs) (dtype lhs) (length (bufs st), 0) 0 (st\<lparr>bufs := bufs st @ [?zs]\<rparr>)
      = (Inr (length (arrays st)), st2)"
    using dev by (simp add: Array_ctor_cpu st2_def)
  have g: "get_array st2 this = Some lhs" "get_array st2 rhs = Some r"
    "get_array st2 (length (arrays st)) = Some ?out"
    using l r by (simp_all add: get_array_def st2_def nth_append split: if_splits)
  have dl: "fst (data lhs) < length (bufs st)" and dr: "fst (data r) < length (bufs st)"
    and bl: "snd (data lhs) + ?n * ?w \<le> length (bufs st ! fst (data lhs))"
    and br: "snd (data r) + ?n * ?w \<le> length (bufs st ! fst (data r))"
    using wl wr dt sh by (simp_all add: wf_array_def in_buffer_def total_bytes_def)
  have b2: "bufs st2 ! fst (data lhs) = bufs st ! fst (data lhs)"
    "bufs st2 ! fst (data r) = bufs st ! fst (data r)"
    "bufs st2 ! length (bufs st) = ?zs" "length (bufs st2) = Suc (length (bufs st))"
    using dl dr by (simp_all add: st2_def nth_append)
  have ba: "bytes_at st2 (data lhs) = bytes_at st (data lhs)" "bytes_at st2 (data r) = bytes_at st (data r)"
    by (simp_all add: bytes_at_def b2)
  have ib: "in_buffer st2 (data lhs) (?n * ?w)" "in_buffer st2 (data r) (?n * ?w)"
    "in_buffer st2 (data ?out) (?n * ?w)"
    using dl dr bl br by (simp_all add: in_buffer_def b2 total_bytes_def)
  have re: "reads_entry_values (data lhs) (data ?out) (?n * ?w)"
    "reads_entry_values (data r) (data ?out) (?n * ?w)"
    using dl dr by (simp_all add: reads_entry_values_def)
  have hv: "holds_values env (dtype lhs) (bytes_at st2 (data lhs)) ?n"
    "holds_values env (dtype lhs) (bytes_at st2 (data r)) ?n"
    using hl hr by (simp_all only: ba)
  have ao: "Add_out env this rhs (length (arrays st)) st2 =
      (Inr (), st2\<lparr>bufs := (bufs st2)[length (bufs st) :=
              add_bytes env (dtype lhs) (bytes_at st (data lhs)) (bytes_at st (data r)) ?n],
            arrays := (arrays st2)[length (arrays st) := ?out\<lparr>node := length (anodes st2)\<rparr>],
            anodes := anodes st2 @ [Some (length (onodes st2))],
            onodes := onodes st2 @ [\<lparr>name = ''add'', next_nodes = [node lhs, node r]\<rparr>]\<rparr>)"
    using Add_out_ok [OF g(1) g(2) g(3) dt sh ib re hv]
    by (simp add: b2 ba total_bytes_def)
  have "Add env this rhs st = (Inr (length (arrays st)), snd (Add_out env this rhs (length (arrays st)) st2))"
    using l mk ct ao by (simp add: Add_def bindM_def)
  then show ?thesis
    unfolding ao by (simp add: st2_def total_bytes_def)
qed

lemma Add_ok_cuda:
  assumes l: "get_array st this = Some lhs" and r: "get_array st rhs = Some r"
    and dt: "dtype lhs = dtype r" and sh: "shape lhs = shape r"
    and wl: "wf_array st lhs" and wr: "wf_array st r" and dev: "device st = Cuda"
    and en: "enable_cuda env" and ok: "cuda_malloc_ok env (total_bytes lhs)"
    and hl: "holds_values env (dtype lhs) (bytes_at st (data lhs)) (total_size (shape lhs))"
    and hr: "holds_values env (dtype lhs) (bytes_at st (data r)) (total_size (shape lhs))"
  shows "Add env this rhs st =
     (Inr (length (arrays st)),
      st\<lparr>bufs := bufs st @ [replicate (total_bytes lhs) 0,
                            add_bytes env (dtype lhs) (bytes_at st (data lhs)) (bytes_at st (data r))
                               (total_size (shape lhs))],
         arrays := arrays st @ [\<lparr>shape = shape lhs, is_contiguous = True, dtype = dtype lhs,
                                 data = (Suc (length (bufs st)), 0), offset = 0,
                                 node = Suc (length (anodes st))\<rparr>],
         anodes := anodes st @ [None, Some (length (onodes st))],
         onodes := onodes st @ [\<lparr>name = ''add'', next_nodes = [node lhs, node r]\<rparr>]\<rparr>)"
proof -
  let ?n = "total_size (shape lhs)"
  let ?w = "GetElementSize (dtype lhs)"
  let ?zs = "replicate (total_bytes lhs) (0 :: byte)"
  let ?out = "\<lparr>shape = shape lhs, is_contiguous = True, dtype = dtype lhs,
                data = (Suc (length (bufs st)), 0), offset = 0, node = length (anodes st)\<rparr>"
  define st2 where "st2 = st\<lparr>bufs := bufs st @ [?zs, ?zs], anodes := anodes st @ [None],
                            arrays := arrays st @ [?out]\<rparr>"
  have mk: "make_unique (total_bytes lhs) st = (Inr (length (bufs st), 0), st\<lparr>bufs := bufs st @ [?zs]\<rparr>)"
    by (simp add: make_unique_def)
  have ct: "Array_ctor env (shape lhs) (dtype lhs) (length (bufs st), 0) 0 (st\<lparr>bufs := bufs st @ [?zs]\<rparr>)
      = (Inr (length (arrays st)), st2)"
    using dev en ok
    by (subst Array_ctor_cuda) (simp_all add: st2_def total_bytes_def in_buffer_def bytes_at_def)
  have g: "get_array st2 this = Some lhs" "get_array st2 rhs = Some r"
    "get_array st2 (length (arrays st)) = Some ?out"
    using l r by (simp_all add: get_array_def st2_def nth_append split: if_splits)
  have dl: "fst (data lhs) < length (bufs st)" and dr: "fst (data r) < length (bufs st)"
    and bl: "snd (data lhs) + ?n * ?w \<le> length (bufs st ! fst (data lhs))"
    and br: "snd (data r) + ?n * ?w \<le> length (bufs st ! fst (data r))"
    using wl wr dt sh by (simp_all add: wf_array_def in_buffer_def total_bytes_def)
  have b2: "bufs st2 ! fst (data lhs) = bufs st ! fst (data lhs)"
    "bufs st2 ! fst (data r) = bufs st ! fst (data r)"
    "bufs st2 ! Suc (length (bufs st)) = ?zs" "length (bufs st2) = Suc (Suc (length (bufs st)))"
    using dl dr by (simp_all add: st2_def nth_append)
  have ba: "bytes_at st2 (data lhs) = bytes_at st (data lhs)" "bytes_at st2 (data r) = bytes_at st (data r)"
    by (simp_all add: bytes_at_def b2)
  have ib: "in_buffer st2 (data lhs) (?n * ?w)" "in_buffer st2 (data r) (?n * ?w)"
    "in_buffer st2 (data ?out) (?n * ?w)"
    using dl dr bl br by (simp_all add: in_buffer_def b2 total_bytes_def)
  have re: "reads_entry_values (data lhs) (data ?out) (?n * ?w)"
    "reads_entry_values (data r) (data ?out) (?n * ?w)"
    using dl dr by (simp_all add: reads_entry_values_def)
  have hv: "holds_values env (dtype lhs) (bytes_at st2 (data lhs)) ?n"
    "holds_values env (dtype lhs) (bytes_at st2 (data r)) ?n"
    using hl hr by (simp_all only: ba)
  have ao: "Add_out env this rhs (length (arrays st)) st2 =
      (Inr (), st2\<lparr>bufs := (bufs st2)[Suc (length (bufs st)) :=
              add_bytes env (dtype lhs) (bytes_at st (data lhs)) (bytes_at st (data r)) ?n],
            arrays := (arrays st2)[length (arrays st) := ?out\<lparr>node := length (anodes st2)\<rparr>],
            anodes := anodes st2 @ [Some (length (onodes st2))],
            onodes := onodes st2 @ [\<lparr>name = ''add'', next_nodes = [node lhs, node r]\<rparr>]\<rparr>)"
    using Add_out_ok [OF g(1) g(2) g(3) dt sh ib re hv]
    by (simp add: b2 ba total_bytes_def)
  have "Add env this rhs st = (Inr (length (arrays st)), snd (Add_out env this rhs (length (arrays st)) st2))"
    using l mk ct ao by (simp add: Add_def bindM_def)
  then show ?thesis
    unfolding ao by (simp add: st2_def total_bytes_def list_update_append)
qed

lemma Mul_ok_cpu:
  assumes l: "get_array st this = Some lhs" and r: "get_array st rhs = Some r"
    and dt: "dtype lhs = dtype r" and sh: "shape lhs = shape r"
    and wl: "wf_array st lhs" and wr: "wf_array st r" and dev: "device st = Cpu"
    and hl: "holds_values env (dtype lhs) (bytes_at st (data lhs)) (total_size (shape lhs))"
    and hr: "holds_values env (dtype lhs) (bytes_at st (data r)) (total_size (shape lhs))"
  shows "Mul env this rhs st =
     (Inr (length (arrays st)),
      st\<lparr>bufs := bufs st @ [mul_bytes env (dtype lhs) (bytes_at st (data lhs)) (bytes_at st (data r))
                               (total_size (shape lhs))],
         arrays := arrays st @ [\<lparr>shape = shape lhs, is_contiguous = True, dtype = dtype lhs,
                                 data = (length (bufs st), 0), offset = 0,
                                 node = Suc (length (anodes st))\<rparr>],
         anodes := anodes st @ [None, Some (length (onodes st))],
         onodes := onodes st @ [\<lparr>name = ''mul'', next_nodes = [node lhs, node r]\<rparr>]\<rparr>)"
proof -
  let ?n = "total_size (shape lhs)"
  let ?w = "GetElementSize (dtype lhs)"
  let ?zs = "replicate (total_bytes lhs) (0 :: byte)"
  let ?out = "\<lparr>shape = shape lhs, is_contiguous = True, dtype = dtype lhs,
                data = (length (bufs st), 0), offset = 0, node = length (anodes st)\<rparr>"
  define st2 where "st2 = st\<lparr>bufs := bufs st @ [?zs], anodes := anodes st @ [None],
                            arrays := arrays st @ [?out]\<rparr>"
  have mk: "make_unique (total_bytes lhs) st = (Inr (length (bufs st), 0), st\<lparr>bufs := bufs st @ [?zs]\<rparr>)"
    by (simp add: make_unique_def)
  have ct: "Array_ctor env (shape lhs) (dtype lhs) (length (bufs st), 0) 0 (st\<lparr>bufs := bufs st @ [?zs]\<rparr>)
      = (Inr (length (arrays st)), st2)"
    using dev by (simp add: Array_ctor_cpu st2_def)
  have g: "get_array st2 this = Some lhs" "get_array st2 rhs = Some r"
    "get_array st2 (length (arrays st)) = Some ?out"
    using l r by (simp_all add: get_array_def st2_def nth_append split: if_splits)
  have dl: "fst (data lhs) < length (bufs st)" and dr: "fst (data r) < length (bufs st)"
    and bl: "snd (data lhs) + ?n * ?w \<le> length (bufs st ! fst (data lhs))"
    and br: "snd (data r) + ?n * ?w \<le> length (bufs st ! fst (data r))"
    using wl wr dt sh by (simp_all add: wf_array_def in_buffer_def total_bytes_def)
  have b2: "bufs st2 ! fst (data lhs) = bufs st ! fst (data lhs)"
    "bufs st2 ! fst (data r) = bufs st ! fst (data r)"
    "bufs st2 ! length (bufs st) = ?zs" "length (bufs st2) = Suc (length (bufs st))"
    using dl dr by (simp_all add: st2_def nth_append)
  have ba: "bytes_at st2 (data lhs) = bytes_at st (data lhs)" "bytes_at st2 (data r) = bytes_at st (data r)"
    by (simp_all add: bytes_at_def b2)
  have ib: "in_buffer st2 (data lhs) (?n * ?w)" "in_buffer st2 (data r) (?n * ?w)"
    "in_buffer st2 (data ?out) (?n * ?w)"
    using dl dr bl br by (simp_all add: in_buffer_def b2 total_bytes_def)
  have re: "reads_entry_values (data lhs) (data ?out) (?n * ?w)"
    "reads_entry_values (data r) (data ?out) (?n * ?w)"
    using dl dr by (simp_all add: reads_entry_values_def)
  have hv: "holds_values env (dtype lhs) (bytes_at st2 (data lhs)) ?n"
    "holds_values env (dtype lhs) (bytes_at st2 (data r)) ?n"
    using hl hr by (simp_all only: ba)
  have ao: "Mul_out env this rhs (length (arrays st)) st2 =
      (Inr (), st2\<lparr>bufs := (bufs st2)[length (bufs st) :=
              mul_bytes env (dtype lhs) (bytes_at st (data lhs)) (bytes_at st (data r)) ?n],
            arrays := (arrays st2)[length (arrays st) := ?out\<lparr>node := length (anodes st2)\<rparr>],
            anodes := anodes st2 @ [Some (length (onodes st2))],
            onodes := onodes st2 @ [\<lparr>name = ''mul'', next_nodes = [node lhs, node r]\<rparr>]\<rparr>)"
    using Mul_out_ok [OF g(1) g(2) g(3) dt sh ib re hv]
    by (simp add: b2 ba total_bytes_def)
  have "Mul env this rhs st = (Inr (length (arrays st)), snd (Mul_out env this rhs (length (arrays st)) st2))"
    using l mk ct ao by (simp add: Mul_def bindM_def)
  then show ?thesis
    unfolding ao by (simp add: st2_def total_bytes_def)
qed

lemma Mul_ok_cuda:
  assumes l: "get_array st this = Some lhs" and r: "get_array st rhs = Some r"
    and dt: "dtype lhs = dtype r" and sh: "shape lhs = shape r"
    and wl: "wf_array st lhs" and wr: "wf_array st r" and dev: "device st = Cuda"
    and en: "enable_cuda env" and ok: "cuda_malloc_ok env (total_bytes lhs)"
    and hl: "holds_values env (dtype lhs) (bytes_at st (data lhs)) (total_size (shape lhs))"
    and hr: "holds_values env (dtype lhs) (bytes_at st (data r)) (total_size (shape lhs))"
  shows "Mul env this rhs st =
     (Inr (length (arrays st)),
      st\<lparr>bufs := bufs st @ [replicate (total_bytes lhs) 0,
                            mul_bytes env (dtype lhs) (bytes_at st (data lhs)) (bytes_at st (data r))
                               (total_size (shape lhs))],
         arrays := arrays st @ [\<lparr>shape = shape lhs, is_contiguous = True, dtype = dtype lhs,
                                 data = (Suc (length (bufs st)), 0), offset = 0,
                                 node = Suc (length (anodes st))\<rparr>],
         anodes := anodes st @ [None, Some (length (onodes st))],
         onodes := onodes st @ [\<lparr>name = ''mul'', next_nodes = [node lhs, node r]\<rparr>]\<rparr>)"
proof -
  let ?n = "total_size (shape lhs)"
  let ?w = "GetElementSize (dtype lhs)"
  let ?zs = "replicate (total_bytes lhs) (0 :: byte)"
  let ?out = "\<lparr>shape = shape lhs, is_contiguous = True, dtype = dtype lhs,
                data = (Suc (length (bufs st)), 0), offset = 0, node = length (anodes st)\<rparr>"
  define st2 where "st2 = st\<lparr>bufs := bufs st @ [?zs, ?zs], anodes := anodes st @ [None],
                            arrays := arrays st @ [?out]\<rparr>"
  have mk: "make_unique (total_bytes lhs) st = (Inr (length (bufs st), 0), st\<lparr>bufs := bufs st @ [?zs]\<rparr>)"
    by (simp add: make_unique_def)
  have ct: "Array_ctor env (shape lhs) (dtype lhs) (length (bufs st), 0) 0 (st\<lparr>bufs := bufs st @ [?zs]\<rparr>)
      = (Inr (length (arrays st)), st2)"
    using dev en ok
    by (subst Array_ctor_cuda) (simp_all add: st2_def total_bytes_def in_buffer_def bytes_at_def)
  have g: "get_array st2 this = Some lhs" "get_array st2 rhs = Some r"
    "get_array st2 (length (arrays st)) = Some ?out"
    using l r by (simp_all add: get_array_def st2_def nth_append split: if_splits)
  have dl: "fst (data lhs) < length (bufs st)" and dr: "fst (data r) < length (bufs st)"
    and bl: "snd (data lhs) + ?n * ?w \<le> length (bufs st ! fst (data lhs))"
    and br: "snd (data r) + ?n * ?w \<le> length (bufs st ! fst (data r))"
    using wl wr dt sh by (simp_all add: wf_array_def in_buffer_def total_bytes_def)
  have b2: "bufs st2 ! fst (data lhs) = bufs st ! fst (data lhs)"
    "bufs st2 ! fst (data r) = bufs st ! fst (data r)"
    "bufs st2 ! Suc (length (bufs st)) = ?zs" "length (bufs st2) = Suc (Suc (length (bufs st)))"
    using dl dr by (simp_all add: st2_def nth_append)
  have ba: "bytes_at st2 (data lhs) = bytes_at st (data lhs)" "bytes_at st2 (data r) = bytes_at st (data r)"
    by (simp_all add: bytes_at_def b2)
  have ib: "in_buffer st2 (data lhs) (?n * ?w)" "in_buffer st2 (data r) (?n * ?w)"
    "in_buffer st2 (data ?out) (?n * ?w)"
    using dl dr bl br by (simp_all add: in_buffer_def b2 total_bytes_def)
  have re: "reads_entry_values (data lhs) (data ?out) (?n * ?w)"
    "reads_entry_values (data r) (data ?out) (?n * ?w)"
    using dl dr by (simp_all add: reads_entry_values_def)
  have hv: "holds_values env (dtype lhs) (bytes_at st2 (data lhs)) ?n"
    "holds_values env (dtype lhs) (bytes_at st2 (data r)) ?n"
    using hl hr by (simp_all only: ba)
  have ao: "Mul_out env this rhs (length (arrays st)) st2 =
      (Inr (), st2\<lparr>bufs := (bufs st2)[Suc (length (bufs st)) :=
              mul_bytes env (dtype lhs) (bytes_at st (data lhs)) (bytes_at st (data r)) ?n],
            arrays := (arrays st2)[length (arrays st) := ?out\<lparr>node := length (anodes st2)\<rparr>],
            anodes := anodes st2 @ [Some (length (onodes st2))],
            onodes := onodes st2 @ [\<lparr>name = ''mul'', next_nodes = [node lhs, node r]\<rparr>]\<rparr>)"
    using Mul_out_ok [OF g(1) g(2) g(3) dt sh ib re hv]
    by (simp add: b2 ba total_bytes_def)
  have "Mul env this rhs st = (Inr (length (arrays st)), snd (Mul_out env this rhs (length (arrays st)) st2))"
    using l mk ct ao by (simp add: Mul_def bindM_def)
  then show ?thesis
    unfolding ao by (simp add: st2_def total_bytes_def list_update_append)
qed

lemma eq_sum_is_sum: "is_sum env dt bl br bo n \<Longrightarrow> eq_sum env dt bl br bo n"
  by (cases dt) (auto simp: eq_sum_def is_sum_def fp_eq_def)

lemma eq_product_is_product: "is_product env dt bl br bo n \<Longrightarrow> eq_product env dt bl br bo n"
  by (cases dt) (auto simp: eq_product_def is_product_def fp_eq_def)

text \<open>
  Where the output cannot be constructed, the out-of-place forms stop in the
  constructor, after the allocation of the zeroed buffer and of the node.
\<close>

lemma Add_without_cuda:
  assumes "get_array st this = Some lhs" "device st = Cuda" "\<not> enable_cuda env"
  shows "Add env this rhs st = (Inl AssertionFailure,
           st\<lparr>bufs := bufs st @ [replicate (total_bytes lhs) 0], anodes := anodes st @ [None]\<rparr>)"
  using assms
  by (simp add: Add_def bindM_def make_unique_def Array_ctor_def make_ArrayNode_def
      AllocateCudaManaged_def)

lemma Add_without_memory:
  assumes "get_array st this = Some lhs" "device st = Cuda" "enable_cuda env"
    "\<not> cuda_malloc_ok env (total_bytes lhs)"
  shows "Add env this rhs st = (Inl DeviceAllocationFailure,
           st\<lparr>bufs := bufs st @ [replicate (total_bytes lhs) 0], anodes := anodes st @ [None]\<rparr>)"
  using assms
  by (simp add: Add_def bindM_def make_unique_def Array_ctor_def make_ArrayNode_def
      AllocateCudaManaged_def total_bytes_def)

lemma Mul_without_cuda:
  assumes "get_array st this = Some lhs" "device st = Cuda" "\<not> enable_cuda env"
  shows "Mul env this rhs st = (Inl AssertionFailure,
           st\<lparr>bufs := bufs st @ [replicate (total_bytes lhs) 0], anodes := anodes st @ [None]\<rparr>)"
  using assms
  by (simp add: Mul_def bindM_def make_unique_def Array_ctor_def make_ArrayNode_def
      AllocateCudaManaged_def)

lemma Mul_without_memory:
  assumes "get_array st this = Some lhs" "device st = Cuda" "enable_cuda env"
    "\<not> cuda_malloc_ok env (total_bytes lhs)"
  shows "Mul env this rhs st = (Inl DeviceAllocationFailure,
           st\<lparr>bufs := bufs st @ [replicate (total_bytes lhs) 0], anodes := anodes st @ [None]\<rparr>)"
  using assms
  by (simp add: Mul_def bindM_def make_unique_def Array_ctor_def make_ArrayNode_def
      AllocateCudaManaged_def total_bytes_def)

text \<open>
  The out-of-place forms on operands of one shape and dtype that hold their elements,
  on a device that can construct the output.
\<close>

lemma Add_returns_sum:
  assumes "get_array st a = Some A" and "get_array st b = Some B"
    and "shape A = shape B" and "dtype A = dtype B"
    and "wf_array st A" and "wf_array st B"
    and "holds_values env (dtype A) (bytes_at st (data A)) (total_size (shape A))"
    and "holds_values env (dtype A) (bytes_at st (data B)) (total_size (shape A))"
    and "device st = Cpu \<or> enable_cuda env \<and> cuda_malloc_ok env (total_bytes A)"
  shows "\<exists>c C st'. Add env a b st = (Inr c, st') \<and> get_array st' c = Some C \<and>
            shape C = shape A \<and> dtype C = dtype A \<and> wf_array st' C \<and>
            is_sum env (dtype A) (bytes_at st (data A)) (bytes_at st (data B)) (bytes_at st' (data C))
              (total_size (shape A)) \<and>
            take (length (bufs st)) (bufs st') = bufs st \<and>
            get_array st' a = Some A \<and> get_array st' b = Some B"
proof -
  have lt: "a < length (arrays st)" "b < length (arrays st)"
    using assms(1,2) by (simp_all add: get_array_def split: if_splits)
  have s: "is_sum env (dtype A) (bytes_at st (data A)) (bytes_at st (data B))
      (add_bytes env (dtype A) (bytes_at st (data A)) (bytes_at st (data B)) (total_size (shape A)))
      (total_size (shape A))"
    using is_sum_add_bytes [of env "dtype A" _ _ "total_size (shape A)" "[]"] by simp
  show ?thesis
  proof (cases "device st")
    case Cpu
    show ?thesis
      using assms(1,2) lt s
      by (simp add: Add_ok_cpu [OF assms(1,2,4,3,5,6) Cpu assms(7,8)] get_array_def nth_append
          wf_array_def in_buffer_def total_bytes_def length_add_bytes bytes_at_def)
  next
    case Cuda
    with assms(9) have en: "enable_cuda env" and ok: "cuda_malloc_ok env (total_bytes A)" by simp_all
    show ?thesis
      using assms(1,2) lt s
      by (simp add: Add_ok_cuda [OF assms(1,2,4,3,5,6) Cuda en ok assms(7,8)] get_array_def nth_append
          wf_array_def in_buffer_def total_bytes_def length_add_bytes bytes_at_def)
  qed
qed

lemma Mul_returns_product:
  assumes "get_array st a = Some A" and "get_array st b = Some B"
    and "shape A = shape B" and "dtype A = dtype B"
    and "wf_array st A" and "wf_array st B"
    and "holds_values env (dtype A) (bytes_at st (data A)) (total_size (shape A))"
    and "holds_values env (dtype A) (bytes_at st (data B)) (total_size (shape A))"
    and "device st = Cpu \<or> enable_cuda env \<and> cuda_malloc_ok env (total_bytes A)"
  shows "\<exists>c C st'. Mul env a b st = (Inr c, st') \<and> get_array st' c = Some C \<and>
            shape C = shape A \<and> dtype C = dtype A \<and> wf_array st' C \<and>
            is_product env (dtype A) (bytes_at st (data A)) (bytes_at st (data B)) (bytes_at st' (data C))
              (total_size (shape A)) \<and>
            take (length (bufs st)) (bufs st') = bufs st \<and>
            get_array st' a = Some A \<and> get_array st' b = Some B"
proof -
  have lt: "a < length (arrays st)" "b < length (arrays st)"
    using assms(1,2) by (simp_all add: get_array_def split: if_splits)
  have s: "is_product env (dtype A) (bytes_at st (data A)) (bytes_at st (data B))
      (mul_bytes env (dtype A) (bytes_at st (data A)) (bytes_at st (data B)) (total_size (shape A)))
      (total_size (shape A))"
    using is_product_mul_bytes [of env "dtype A" _ _ "total_size (shape A)" "[]"] by simp
  show ?thesis
  proof (cases "device st")
    case Cpu
    show ?thesis
      using assms(1,2) lt s
      by (simp add: Mul_ok_cpu [OF assms(1,2,4,3,5,6) Cpu assms(7,8)] get_array_def nth_append
          wf_array_def in_buffer_def total_bytes_def length_mul_bytes bytes_at_def)
  next
    case Cuda
    with assms(9) have en: "enable_cuda env" and ok: "cuda_malloc_ok env (total_bytes A)" by simp_all
    show ?thesis
      using assms(1,2) lt s
      by (simp add: Mul_ok_cuda [OF assms(1,2,4,3,5,6) Cuda en ok assms(7,8)] get_array_def nth_append
          wf_array_def in_buffer_def total_bytes_def length_mul_bytes bytes_at_def)
  qed
qed

lemma ex_facts:
  "get_array ex_st 0 = Some ex_a" "get_array ex_st 1 = Some ex_b"
  "shape ex_a = shape ex_b" "dtype ex_a = dtype ex_b"
  "wf_array ex_st ex_a" "wf_array ex_st ex_b"
  "device ex_st = Cpu" "total_size (shape ex_a) = 2"
  by (simp_all add: ex_st_def ex_a_def ex_b_def get_array_def wf_array_def in_buffer_def
      total_bytes_def total_size_def)

lemma holds_values_int32: "holds_values env kInt32 buf n"
  by (simp add: holds_values_def all_valid_def T_int32_t_def)

lemma ex_holds:
  "holds_values env (dtype ex_a) (bytes_at st (data ex_a)) (total_size (shape ex_a))"
  "holds_values env (dtype ex_a) (bytes_at st (data ex_b)) (total_size (shape ex_a))"
  by (simp_all add: ex_a_def holds_values_int32)

lemma ex_cuda_facts:
  "get_array ex_st_cuda 0 = Some ex_a" "get_array ex_st_cuda 1 = Some ex_b"
  "wf_array ex_st_cuda ex_a" "wf_array ex_st_cuda ex_b"
  "device ex_st_cuda = Cuda" "\<not> enable_cuda ex_env"
  "enable_cuda ex_env_nomem" "\<not> cuda_malloc_ok ex_env_nomem (total_bytes ex_a)"
  by (simp_all add: ex_st_cuda_def ex_st_def ex_a_def ex_b_def get_array_def wf_array_def
      in_buffer_def total_bytes_def total_size_def ex_env_def ex_env_nomem_def)

lemma ex_bool_facts:
  "get_array ex_bool 0 = Some ex_b0" "get_array ex_bool 1 = Some ex_b1"
  "shape ex_b0 = shape ex_b1" "dtype ex_b0 = dtype ex_b1"
  "wf_array ex_bool ex_b0" "wf_array ex_bool ex_b1"
  "device ex_bool = Cpu" "dtype ex_b0 = kBool"
  by (simp_all add: ex_bool_def ex_b0_def ex_b1_def get_array_def wf_array_def in_buffer_def
      total_bytes_def total_size_def)

lemma ex_bool_holds:
  "holds_values env (dtype ex_b0) (bytes_at ex_bool (data ex_b0)) (total_size (shape ex_b0))"
  "holds_values env (dtype ex_b0) (bytes_at ex_bool (data ex_b1)) (total_size (shape ex_b0))"
  by (simp_all add: ex_bool_def ex_b0_def ex_b1_def total_size_def holds_values_def all_valid_def
      T_bool_def bytes_at_def slice_def less_Suc_eq numeral_2_eq_2)

text \<open>
  A \<^verbatim>\<open>bool\<close> Array with the bytes 2 and 4 does not hold values of \<^verbatim>\<open>bool\<close>: the model
  stops at the first read and says nothing of what the kernels compute from it.
\<close>

lemma invalid_bool_is_undefined:
  "\<not> holds_values ex_env kBool (bytes_at ex_bool_bad (data ex_b0)) 2"
  "fst (Add ex_env 0 1 ex_bool_bad) = Inl MemoryFault"
  "fst (Mul ex_env 0 1 ex_bool_bad) = Inl MemoryFault"
  "fst (IAdd ex_env 0 1 ex_bool_bad) = Inl MemoryFault"
  "fst (IMul ex_env 0 1 ex_bool_bad) = Inl MemoryFault"
proof -
  have "\<not> valid T_bool (slice (sizeof T_bool) (bytes_at ex_bool_bad (data ex_b0)) 0)"
    by (simp add: T_bool_def slice_def bytes_at_def ex_bool_bad_def ex_bool_def ex_b0_def)
  then have "\<exists>k<2. \<not> valid T_bool (slice (sizeof T_bool) (bytes_at ex_bool_bad (data ex_b0)) k)"
    by (intro exI [of _ 0]) simp
  then show "\<not> holds_values ex_env kBool (bytes_at ex_bool_bad (data ex_b0)) 2"
    by (simp add: holds_values_def all_valid_def)
  show "fst (Add ex_env 0 1 ex_bool_bad) = Inl MemoryFault"
    "fst (Mul ex_env 0 1 ex_bool_bad) = Inl MemoryFault"
    "fst (IAdd ex_env 0 1 ex_bool_bad) = Inl MemoryFault"
    "fst (IMul ex_env 0 1 ex_bool_bad) = Inl MemoryFault"
    by code_simp+
qed

text \<open>
  C1, as stated, fails: an Array is not returned for every pair of Arrays of one shape
  and dtype. With the current device set to CUDA, the output cannot be constructed in a
  build without CUDA, where \<^verbatim>\<open>Add\<close> stops at \<^verbatim>\<open>assert(0)\<close>, and in a build with CUDA
  whose allocation fails, where \<^verbatim>\<open>Add\<close> and \<^verbatim>\<open>Mul\<close> throw the allocation error. The
  operands are the \<^verbatim>\<open>int32\<close> Arrays \<open>[1, 2]\<close> and \<open>[3, 4]\<close> of the example.
\<close>

theorem Add_fails_without_device:
  "get_array ex_st_cuda 0 = Some ex_a \<and> get_array ex_st_cuda 1 = Some ex_b \<and>
   shape ex_a = shape ex_b \<and> dtype ex_a = dtype ex_b \<and>
   wf_array ex_st_cuda ex_a \<and> wf_array ex_st_cuda ex_b \<and> device ex_st_cuda = Cuda \<and>
   fst (Add ex_env_nomem 0 1 ex_st_cuda) = Inl DeviceAllocationFailure \<and>
   fst (Mul ex_env_nomem 0 1 ex_st_cuda) = Inl DeviceAllocationFailure \<and>
   fst (Add ex_env 0 1 ex_st_cuda) = Inl AssertionFailure \<and>
   fst (Mul ex_env 0 1 ex_st_cuda) = Inl AssertionFailure"
  by code_simp

text \<open>
  C1, amended. For Arrays \<open>a\<close> and \<open>b\<close> of one shape and one dtype whose buffers hold
  \<open>total_size\<close> elements at their data pointers, each a value of the dtype's C++ type
  (a condition on \<^verbatim>\<open>bool\<close> only, whose bytes must be 0 or 1):

  \<^item> on a device that can construct the output (the CPU, or CUDA in a build with CUDA
    whose allocation succeeds), \<^verbatim>\<open>a.Add(b)\<close> returns a new Array of that shape and dtype
    whose element \<open>i\<close> is, bit for bit, the result of the dtype's \<^verbatim>\<open>+\<close> on \<open>a[i]\<close> and
    \<open>b[i]\<close> for every \<open>i\<close> below \<open>total_size\<close> (so it compares equal to that result
    with \<^verbatim>\<open>==\<close>, except where a floating-point result is a NaN), and \<^verbatim>\<open>a.Mul(b)\<close> one
    whose element \<open>i\<close> is the result of \<^verbatim>\<open>*\<close>; every buffer that existed before the
    call, and the Array objects \<open>a\<close> and \<open>b\<close>, are unchanged;

  \<^item> on the CUDA device in a build without CUDA both calls stop at \<^verbatim>\<open>assert(0)\<close>, and on
    the CUDA device in a build with CUDA whose allocation fails both throw the
    allocation error; in both cases every buffer and Array that existed before the
    call is unchanged.
\<close>

theorem Add_Mul_elementwise:
  assumes "get_array st a = Some A" and "get_array st b = Some B"
    and "shape A = shape B" and "dtype A = dtype B"
    and "wf_array st A" and "wf_array st B"
    and "holds_values env (dtype A) (bytes_at st (data A)) (total_size (shape A))"
    and "holds_values env (dtype A) (bytes_at st (data B)) (total_size (shape A))"
  shows "(device st = Cpu \<or> enable_cuda env \<and> cuda_malloc_ok env (total_bytes A) \<longrightarrow>
          (\<exists>c C st'. Add env a b st = (Inr c, st') \<and> get_array st' c = Some C \<and>
            shape C = shape A \<and> dtype C = dtype A \<and> wf_array st' C \<and>
            is_sum env (dtype A) (bytes_at st (data A)) (bytes_at st (data B)) (bytes_at st' (data C))
              (total_size (shape A)) \<and>
            eq_sum env (dtype A) (bytes_at st (data A)) (bytes_at st (data B)) (bytes_at st' (data C))
              (total_size (shape A)) \<and>
            take (length (bufs st)) (bufs st') = bufs st \<and>
            get_array st' a = Some A \<and> get_array st' b = Some B) \<and>
          (\<exists>c C st'. Mul env a b st = (Inr c, st') \<and> get_array st' c = Some C \<and>
            shape C = shape A \<and> dtype C = dtype A \<and> wf_array st' C \<and>
            is_product env (dtype A) (bytes_at st (data A)) (bytes_at st (data B)) (bytes_at st' (data C))
              (total_size (shape A)) \<and>
            eq_product env (dtype A) (bytes_at st (data A)) (bytes_at st (data B)) (bytes_at st' (data C))
              (total_size (shape A)) \<and>
            take (length (bufs st)) (bufs st') = bufs st \<and>
            get_array st' a = Some A \<and> get_array st' b = Some B)) \<and>
         (device st = Cuda \<and> \<not> enable_cuda env \<longrightarrow>
            fst (Add env a b st) = Inl AssertionFailure \<and>
            fst (Mul env a b st) = Inl AssertionFailure \<and>
            take (length (bufs st)) (bufs (snd (Add env a b st))) = bufs st \<and>
            take (length (bufs st)) (bufs (snd (Mul env a b st))) = bufs st \<and>
            arrays (snd (Add env a b st)) = arrays st \<and> arrays (snd (Mul env a b st)) = arrays st) \<and>
         (device st = Cuda \<and> enable_cuda env \<and> \<not> cuda_malloc_ok env (total_bytes A) \<longrightarrow>
            fst (Add env a b st) = Inl DeviceAllocationFailure \<and>
            fst (Mul env a b st) = Inl DeviceAllocationFailure \<and>
            take (length (bufs st)) (bufs (snd (Add env a b st))) = bufs st \<and>
            take (length (bufs st)) (bufs (snd (Mul env a b st))) = bufs st \<and>
            arrays (snd (Add env a b st)) = arrays st \<and> arrays (snd (Mul env a b st)) = arrays st)"
proof (intro conjI impI)
  assume d: "device st = Cpu \<or> enable_cuda env \<and> cuda_malloc_ok env (total_bytes A)"
  from Add_returns_sum [OF assms d] eq_sum_is_sum
  show "\<exists>c C st'. Add env a b st = (Inr c, st') \<and> get_array st' c = Some C \<and>
            shape C = shape A \<and> dtype C = dtype A \<and> wf_array st' C \<and>
            is_sum env (dtype A) (bytes_at st (data A)) (bytes_at st (data B)) (bytes_at st' (data C))
              (total_size (shape A)) \<and>
            eq_sum env (dtype A) (bytes_at st (data A)) (bytes_at st (data B)) (bytes_at st' (data C))
              (total_size (shape A)) \<and>
            take (length (bufs st)) (bufs st') = bufs st \<and>
            get_array st' a = Some A \<and> get_array st' b = Some B"
    by blast
  from Mul_returns_product [OF assms d] eq_product_is_product
  show "\<exists>c C st'. Mul env a b st = (Inr c, st') \<and> get_array st' c = Some C \<and>
            shape C = shape A \<and> dtype C = dtype A \<and> wf_array st' C \<and>
            is_product env (dtype A) (bytes_at st (data A)) (bytes_at st (data B)) (bytes_at st' (data C))
              (total_size (shape A)) \<and>
            eq_product env (dtype A) (bytes_at st (data A)) (bytes_at st (data B)) (bytes_at st' (data C))
              (total_size (shape A)) \<and>
            take (length (bufs st)) (bufs st') = bufs st \<and>
            get_array st' a = Some A \<and> get_array st' b = Some B"
    by blast
next
  assume "device st = Cuda \<and> \<not> enable_cuda env"
  then have c: "device st = Cuda" "\<not> enable_cuda env" by simp_all
  show "fst (Add env a b st) = Inl AssertionFailure" "fst (Mul env a b st) = Inl AssertionFailure"
    "take (length (bufs st)) (bufs (snd (Add env a b st))) = bufs st"
    "take (length (bufs st)) (bufs (snd (Mul env a b st))) = bufs st"
    "arrays (snd (Add env a b st)) = arrays st" "arrays (snd (Mul env a b st)) = arrays st"
    by (simp_all add: Add_without_cuda [OF assms(1) c] Mul_without_cuda [OF assms(1) c])
next
  assume "device st = Cuda \<and> enable_cuda env \<and> \<not> cuda_malloc_ok env (total_bytes A)"
  then have c: "device st = Cuda" "enable_cuda env" "\<not> cuda_malloc_ok env (total_bytes A)"
    by simp_all
  show "fst (Add env a b st) = Inl DeviceAllocationFailure"
    "fst (Mul env a b st) = Inl DeviceAllocationFailure"
    "take (length (bufs st)) (bufs (snd (Add env a b st))) = bufs st"
    "take (length (bufs st)) (bufs (snd (Mul env a b st))) = bufs st"
    "arrays (snd (Add env a b st)) = arrays st" "arrays (snd (Mul env a b st)) = arrays st"
    by (simp_all add: Add_without_memory [OF assms(1) c] Mul_without_memory [OF assms(1) c])
qed

theorem Add_Mul_elementwise_witness:
  "get_array ex_st 0 = Some ex_a \<and> get_array ex_st 1 = Some ex_b \<and>
   shape ex_a = shape ex_b \<and> dtype ex_a = dtype ex_b \<and>
   wf_array ex_st ex_a \<and> wf_array ex_st ex_b \<and>
   holds_values ex_env (dtype ex_a) (bytes_at ex_st (data ex_a)) (total_size (shape ex_a)) \<and>
   holds_values ex_env (dtype ex_a) (bytes_at ex_st (data ex_b)) (total_size (shape ex_a)) \<and>
   device ex_st = Cpu \<and> total_size (shape ex_a) = 2 \<and>
   (\<exists>c C st'. Add ex_env 0 1 ex_st = (Inr c, st') \<and> get_array st' c = Some C \<and>
      shape C = shape ex_a \<and> dtype C = dtype ex_a \<and> wf_array st' C \<and>
      is_sum ex_env (dtype ex_a) (bytes_at ex_st (data ex_a)) (bytes_at ex_st (data ex_b))
        (bytes_at st' (data C)) (total_size (shape ex_a)) \<and>
      eq_sum ex_env (dtype ex_a) (bytes_at ex_st (data ex_a)) (bytes_at ex_st (data ex_b))
        (bytes_at st' (data C)) (total_size (shape ex_a)) \<and>
      take (length (bufs ex_st)) (bufs st') = bufs ex_st \<and>
      get_array st' 0 = Some ex_a \<and> get_array st' 1 = Some ex_b) \<and>
   (\<exists>c C st'. Mul ex_env 0 1 ex_st = (Inr c, st') \<and> get_array st' c = Some C \<and>
      shape C = shape ex_a \<and> dtype C = dtype ex_a \<and> wf_array st' C \<and>
      is_product ex_env (dtype ex_a) (bytes_at ex_st (data ex_a)) (bytes_at ex_st (data ex_b))
        (bytes_at st' (data C)) (total_size (shape ex_a)) \<and>
      eq_product ex_env (dtype ex_a) (bytes_at ex_st (data ex_a)) (bytes_at ex_st (data ex_b))
        (bytes_at st' (data C)) (total_size (shape ex_a)) \<and>
      take (length (bufs ex_st)) (bufs st') = bufs ex_st \<and>
      get_array st' 0 = Some ex_a \<and> get_array st' 1 = Some ex_b) \<and>
   bufs (snd (Add ex_env 0 1 ex_st)) ! 2 = [4, 0, 0, 0, 6, 0, 0, 0] \<and>
   bufs (snd (Mul ex_env 0 1 ex_st)) ! 2 = [3, 0, 0, 0, 8, 0, 0, 0] \<and>
   get_array ex_bool 0 = Some ex_b0 \<and> get_array ex_bool 1 = Some ex_b1 \<and>
   shape ex_b0 = shape ex_b1 \<and> dtype ex_b0 = dtype ex_b1 \<and> dtype ex_b0 = kBool \<and>
   wf_array ex_bool ex_b0 \<and> wf_array ex_bool ex_b1 \<and>
   holds_values ex_env (dtype ex_b0) (bytes_at ex_bool (data ex_b0)) (total_size (shape ex_b0)) \<and>
   holds_values ex_env (dtype ex_b0) (bytes_at ex_bool (data ex_b1)) (total_size (shape ex_b0)) \<and>
   device ex_bool = Cpu \<and>
   (\<exists>c C st'. Mul ex_env 0 1 ex_bool = (Inr c, st') \<and> get_array st' c = Some C \<and>
      is_product ex_env (dtype ex_b0) (bytes_at ex_bool (data ex_b0)) (bytes_at ex_bool (data ex_b1))
        (bytes_at st' (data C)) (total_size (shape ex_b0))) \<and>
   bufs ex_bool = [[1, 0], [1, 1]] \<and>
   bufs (snd (Add ex_env 0 1 ex_bool)) ! 2 = [1, 1] \<and>
   bufs (snd (Mul ex_env 0 1 ex_bool)) ! 2 = [1, 0] \<and>
   device ex_st_cuda = Cuda \<and> \<not> enable_cuda ex_env \<and>
   fst (Add ex_env 0 1 ex_st_cuda) = Inl AssertionFailure \<and>
   arrays (snd (Add ex_env 0 1 ex_st_cuda)) = arrays ex_st_cuda \<and>
   enable_cuda ex_env_nomem \<and> \<not> cuda_malloc_ok ex_env_nomem (total_bytes ex_a) \<and>
   fst (Mul ex_env_nomem 0 1 ex_st_cuda) = Inl DeviceAllocationFailure \<and>
   arrays (snd (Mul ex_env_nomem 0 1 ex_st_cuda)) = arrays ex_st_cuda"
proof -
  note h = ex_facts
  note c = ex_cuda_facts
  have hv: "holds_values ex_env (dtype ex_a) (bytes_at ex_st (data ex_a)) (total_size (shape ex_a))"
    "holds_values ex_env (dtype ex_a) (bytes_at ex_st (data ex_b)) (total_size (shape ex_a))"
    by (rule ex_holds)+
  from h(7) have d: "device ex_st = Cpu \<or> enable_cuda ex_env \<and> cuda_malloc_ok ex_env (total_bytes ex_a)"
    by simp
  have v: "bufs (snd (Add ex_env 0 1 ex_st)) ! 2 = [4, 0, 0, 0, 6, 0, 0, 0]"
    "bufs (snd (Mul ex_env 0 1 ex_st)) ! 2 = [3, 0, 0, 0, 8, 0, 0, 0]"
    "bufs ex_bool = [[1, 0], [1, 1]]"
    "bufs (snd (Add ex_env 0 1 ex_bool)) ! 2 = [1, 1]"
    "bufs (snd (Mul ex_env 0 1 ex_bool)) ! 2 = [1, 0]"
    by code_simp+
  note bl = ex_bool_facts
  have bh: "holds_values ex_env (dtype ex_b0) (bytes_at ex_bool (data ex_b0)) (total_size (shape ex_b0))"
    "holds_values ex_env (dtype ex_b0) (bytes_at ex_bool (data ex_b1)) (total_size (shape ex_b0))"
    by (rule ex_bool_holds)+
  from bl(7) have db: "device ex_bool = Cpu \<or> enable_cuda ex_env \<and> cuda_malloc_ok ex_env (total_bytes ex_b0)"
    by simp
  from Add_Mul_elementwise [OF bl(1-6) bh] db
  have 4: "\<exists>c C st'. Mul ex_env 0 1 ex_bool = (Inr c, st') \<and> get_array st' c = Some C \<and>
      is_product ex_env (dtype ex_b0) (bytes_at ex_bool (data ex_b0)) (bytes_at ex_bool (data ex_b1))
        (bytes_at st' (data C)) (total_size (shape ex_b0))"
    by blast
  from Add_Mul_elementwise [OF h(1-6) hv] d
  have 1: "(\<exists>c C st'. Add ex_env 0 1 ex_st = (Inr c, st') \<and> get_array st' c = Some C \<and>
      shape C = shape ex_a \<and> dtype C = dtype ex_a \<and> wf_array st' C \<and>
      is_sum ex_env (dtype ex_a) (bytes_at ex_st (data ex_a)) (bytes_at ex_st (data ex_b))
        (bytes_at st' (data C)) (total_size (shape ex_a)) \<and>
      eq_sum ex_env (dtype ex_a) (bytes_at ex_st (data ex_a)) (bytes_at ex_st (data ex_b))
        (bytes_at st' (data C)) (total_size (shape ex_a)) \<and>
      take (length (bufs ex_st)) (bufs st') = bufs ex_st \<and>
      get_array st' 0 = Some ex_a \<and> get_array st' 1 = Some ex_b) \<and>
   (\<exists>c C st'. Mul ex_env 0 1 ex_st = (Inr c, st') \<and> get_array st' c = Some C \<and>
      shape C = shape ex_a \<and> dtype C = dtype ex_a \<and> wf_array st' C \<and>
      is_product ex_env (dtype ex_a) (bytes_at ex_st (data ex_a)) (bytes_at ex_st (data ex_b))
        (bytes_at st' (data C)) (total_size (shape ex_a)) \<and>
      eq_product ex_env (dtype ex_a) (bytes_at ex_st (data ex_a)) (bytes_at ex_st (data ex_b))
        (bytes_at st' (data C)) (total_size (shape ex_a)) \<and>
      take (length (bufs ex_st)) (bufs st') = bufs ex_st \<and>
      get_array st' 0 = Some ex_a \<and> get_array st' 1 = Some ex_b)"
    by blast
  from Add_Mul_elementwise [OF c(1,2) h(3,4) c(3,4) ex_holds, of ex_env] c(5,6)
  have 2: "fst (Add ex_env 0 1 ex_st_cuda) = Inl AssertionFailure \<and>
      arrays (snd (Add ex_env 0 1 ex_st_cuda)) = arrays ex_st_cuda"
    by blast
  from Add_Mul_elementwise [OF c(1,2) h(3,4) c(3,4) ex_holds, of ex_env_nomem] c(5,7,8)
  have 3: "fst (Mul ex_env_nomem 0 1 ex_st_cuda) = Inl DeviceAllocationFailure \<and>
      arrays (snd (Mul ex_env_nomem 0 1 ex_st_cuda)) = arrays ex_st_cuda"
    by blast
  from h hv 1 v bl bh 4 c(5-8) 2 3 show ?thesis by blast
qed

subsection \<open>What a call can do to the graph\<close>

lemma constructed_after_buffer:
  assumes "constructed (st\<lparr>bufs := bufs st @ [zs]\<rparr>) st2"
  shows "constructed st st2"
proof -
  from assms have t: "take (Suc (length (bufs st))) (bufs st2) = bufs st @ [zs]"
    and le: "Suc (length (bufs st)) \<le> length (bufs st2)"
    by (simp_all add: constructed_def)
  have "take (length (bufs st)) (take (Suc (length (bufs st))) (bufs st2)) = bufs st"
    unfolding t by simp
  then have "take (length (bufs st)) (bufs st2) = bufs st" by (simp add: min_def)
  with assms le show ?thesis by (simp add: constructed_def)
qed

lemma Add_cases:
  assumes "Add env this rhs st = (res, st')"
  shows "(\<exists>e. res = Inl e \<and> st' = st) \<or>
     (\<exists>st2. this < length (arrays st) \<and> constructed st st2 \<and>
        ((\<exists>e. res = Inl e) \<and> same_graph st2 st' \<or>
         res = Inr (length (arrays st)) \<and> length (arrays st2) = Suc (length (arrays st)) \<and>
         produced ''add'' this rhs (length (arrays st)) st2 st'))"
proof (cases "get_array st this")
  case None
  with assms show ?thesis by (auto simp: Add_def)
next
  case (Some lhs)
  then have lt: "this < length (arrays st)" by (simp add: get_array_def split: if_splits)
  let ?st1 = "st\<lparr>bufs := bufs st @ [replicate (total_bytes lhs) 0]\<rparr>"
  obtain res2 st2 where ct: "Array_ctor env (shape lhs) (dtype lhs) (length (bufs st), 0) 0 ?st1 = (res2, st2)"
    by (metis prod.collapse)
  from Array_ctor_cases [OF ct] have c1: "constructed ?st1 st2"
    and c2: "(\<exists>e. res2 = Inl e \<and> arrays st2 = arrays ?st1) \<or>
      (res2 = Inr (length (arrays ?st1)) \<and> length (arrays st2) = Suc (length (arrays ?st1)))"
    by simp_all
  have c: "constructed st st2" using constructed_after_buffer [OF c1] .
  from c2 show ?thesis
  proof
    assume "\<exists>e. res2 = Inl e \<and> arrays st2 = arrays ?st1"
    then obtain e where "res2 = Inl e" by blast
    with assms Some ct have "res = Inl e" "st' = st2"
      by (simp_all add: Add_def bindM_def make_unique_def)
    with c lt show ?thesis using same_graph_refl by blast
  next
    assume a: "res2 = Inr (length (arrays ?st1)) \<and> length (arrays st2) = Suc (length (arrays ?st1))"
    obtain res3 st3 where ao: "Add_out env this rhs (length (arrays st)) st2 = (res3, st3)"
      by (metis prod.collapse)
    from assms Some ct a ao have r: "st' = st3" "res = (case res3 of Inl e \<Rightarrow> Inl e | Inr u \<Rightarrow> Inr (length (arrays st)))"
      by (simp_all add: Add_def bindM_def make_unique_def split: sum.splits)
    from Add_out_cases [OF ao] r a c lt show ?thesis by auto
  qed
qed

lemma Mul_cases:
  assumes "Mul env this rhs st = (res, st')"
  shows "(\<exists>e. res = Inl e \<and> st' = st) \<or>
     (\<exists>st2. this < length (arrays st) \<and> constructed st st2 \<and>
        ((\<exists>e. res = Inl e) \<and> same_graph st2 st' \<or>
         res = Inr (length (arrays st)) \<and> length (arrays st2) = Suc (length (arrays st)) \<and>
         produced ''mul'' this rhs (length (arrays st)) st2 st'))"
proof (cases "get_array st this")
  case None
  with assms show ?thesis by (auto simp: Mul_def)
next
  case (Some lhs)
  then have lt: "this < length (arrays st)" by (simp add: get_array_def split: if_splits)
  let ?st1 = "st\<lparr>bufs := bufs st @ [replicate (total_bytes lhs) 0]\<rparr>"
  obtain res2 st2 where ct: "Array_ctor env (shape lhs) (dtype lhs) (length (bufs st), 0) 0 ?st1 = (res2, st2)"
    by (metis prod.collapse)
  from Array_ctor_cases [OF ct] have c1: "constructed ?st1 st2"
    and c2: "(\<exists>e. res2 = Inl e \<and> arrays st2 = arrays ?st1) \<or>
      (res2 = Inr (length (arrays ?st1)) \<and> length (arrays st2) = Suc (length (arrays ?st1)))"
    by simp_all
  have c: "constructed st st2" using constructed_after_buffer [OF c1] .
  from c2 show ?thesis
  proof
    assume "\<exists>e. res2 = Inl e \<and> arrays st2 = arrays ?st1"
    then obtain e where "res2 = Inl e" by blast
    with assms Some ct have "res = Inl e" "st' = st2"
      by (simp_all add: Mul_def bindM_def make_unique_def)
    with c lt show ?thesis using same_graph_refl by blast
  next
    assume a: "res2 = Inr (length (arrays ?st1)) \<and> length (arrays st2) = Suc (length (arrays ?st1))"
    obtain res3 st3 where ao: "Mul_out env this rhs (length (arrays st)) st2 = (res3, st3)"
      by (metis prod.collapse)
    from assms Some ct a ao have r: "st' = st3" "res = (case res3 of Inl e \<Rightarrow> Inl e | Inr u \<Rightarrow> Inr (length (arrays st)))"
      by (simp_all add: Mul_def bindM_def make_unique_def split: sum.splits)
    from Mul_out_cases [OF ao] r a c lt show ?thesis by auto
  qed
qed

lemma IAdd_cases:
  assumes "IAdd env this rhs st = (res, st')"
  shows "(\<exists>e. res = Inl e \<and> same_graph st st') \<or> (res = Inr this \<and> produced ''add'' this rhs this st st')"
proof -
  obtain res1 st1 where ao: "Add_out env this rhs this st = (res1, st1)" by (metis prod.collapse)
  with assms have "st' = st1" "res = (case res1 of Inl e \<Rightarrow> Inl e | Inr u \<Rightarrow> Inr this)"
    by (simp_all add: IAdd_def bindM_def split: sum.splits)
  with Add_out_cases [OF ao] show ?thesis by auto
qed

lemma IMul_cases:
  assumes "IMul env this rhs st = (res, st')"
  shows "(\<exists>e. res = Inl e \<and> same_graph st st') \<or> (res = Inr this \<and> produced ''mul'' this rhs this st st')"
proof -
  obtain res1 st1 where ao: "Mul_out env this rhs this st = (res1, st1)" by (metis prod.collapse)
  with assms have "st' = st1" "res = (case res1 of Inl e \<Rightarrow> Inl e | Inr u \<Rightarrow> Inr this)"
    by (simp_all add: IMul_def bindM_def split: sum.splits)
  with Mul_out_cases [OF ao] show ?thesis by auto
qed

subsection \<open>The graph stays well-formed\<close>

lemma graph_ok_same_graph: "same_graph st st' \<Longrightarrow> graph_ok st \<Longrightarrow> graph_ok st'"
  by (simp add: same_graph_def graph_ok_def)

lemma graph_ok_constructed:
  assumes "constructed st st'" "graph_ok st"
  shows "graph_ok st'"
proof -
  from assms(1) have an: "anodes st' = anodes st @ [None]" and on: "onodes st' = onodes st"
    and ar: "arrays st' = arrays st \<or> (\<exists>a. arrays st' = arrays st @ [a] \<and> node a = length (anodes st))"
    by (simp_all add: constructed_def)
  have 1: "\<forall>a \<in> set (arrays st'). node a < length (anodes st')"
    using ar assms(2) an by (auto simp: graph_ok_def less_Suc_eq)
  have 2: "\<forall>n < length (anodes st'). \<forall>p. anodes st' ! n = Some p \<longrightarrow>
        p < length (onodes st') \<and> (\<forall>m \<in> set (next_nodes (onodes st' ! p)). m < n)"
    using assms(2) an on by (auto simp: graph_ok_def nth_append less_Suc_eq)
  from 1 2 show ?thesis by (simp add: graph_ok_def)
qed

lemma graph_ok_produced:
  assumes "produced nm this rhs out st st'" "graph_ok st"
  shows "graph_ok st'"
proof -
  let ?N = "length (anodes st)"
  let ?P = "length (onodes st)"
  from assms(1) have lt: "this < length (arrays st)" "rhs < length (arrays st)" "out < length (arrays st)"
    and ar: "arrays st' = (arrays st)[out := (arrays st ! out)\<lparr>node := ?N\<rparr>]"
    and an: "anodes st' = anodes st @ [Some ?P]"
    and on: "onodes st' = onodes st @ [\<lparr>name = nm, next_nodes = [node (arrays st ! this), node (arrays st ! rhs)]\<rparr>]"
    by (simp_all add: produced_def)
  from assms(2) have a_ok: "\<And>a. a \<in> set (arrays st) \<Longrightarrow> node a < ?N"
    and n_ok: "\<And>n p. n < ?N \<Longrightarrow> anodes st ! n = Some p \<Longrightarrow>
        p < ?P \<and> (\<forall>m \<in> set (next_nodes (onodes st ! p)). m < n)"
    by (simp_all add: graph_ok_def)
  have ops: "node (arrays st ! this) < ?N" "node (arrays st ! rhs) < ?N"
    using lt a_ok by simp_all
  have 1: "\<forall>a \<in> set (arrays st'). node a < length (anodes st')"
  proof
    fix a assume "a \<in> set (arrays st')"
    then have "a \<in> insert ((arrays st ! out)\<lparr>node := ?N\<rparr>) (set (arrays st))"
      unfolding ar using set_update_subset_insert by fastforce
    then show "node a < length (anodes st')"
      using a_ok an by (auto simp: less_Suc_eq)
  qed
  have 2: "\<forall>n < length (anodes st'). \<forall>p. anodes st' ! n = Some p \<longrightarrow>
        p < length (onodes st') \<and> (\<forall>m \<in> set (next_nodes (onodes st' ! p)). m < n)"
  proof (intro allI impI)
    fix n p assume n: "n < length (anodes st')" and p: "anodes st' ! n = Some p"
    show "p < length (onodes st') \<and> (\<forall>m \<in> set (next_nodes (onodes st' ! p)). m < n)"
    proof (cases "n < ?N")
      case True
      with p an have "anodes st ! n = Some p" by (simp add: nth_append)
      from n_ok [OF True this] show ?thesis by (simp add: on nth_append)
    next
      case False
      with n an have "n = ?N" by simp
      with p an have "p = ?P" by simp
      with \<open>n = ?N\<close> ops show ?thesis by (simp add: on)
    qed
  qed
  from 1 2 show ?thesis by (simp add: graph_ok_def)
qed

lemma graph_ok_exec:
  assumes "graph_ok st"
  shows "graph_ok (exec env c st)"
proof (cases c)
  case (New_buffer bs)
  with assms show ?thesis by (simp add: graph_ok_def)
next
  case (Set_device d)
  with assms show ?thesis by (simp add: graph_ok_def)
next
  case (Construct shp dt dat off)
  obtain res st' where "Array_ctor env shp dt dat off st = (res, st')" by (metis prod.collapse)
  with Array_ctor_cases [OF this] assms Construct show ?thesis
    by (auto intro: graph_ok_constructed)
next
  case (Call_Add a b)
  obtain res st' where "Add env a b st = (res, st')" by (metis prod.collapse)
  with Add_cases [OF this] assms Call_Add show ?thesis
    by (auto intro: graph_ok_constructed graph_ok_produced graph_ok_same_graph)
next
  case (Call_Mul a b)
  obtain res st' where "Mul env a b st = (res, st')" by (metis prod.collapse)
  with Mul_cases [OF this] assms Call_Mul show ?thesis
    by (auto intro: graph_ok_constructed graph_ok_produced graph_ok_same_graph)
next
  case (Call_IAdd a b)
  obtain res st' where "IAdd env a b st = (res, st')" by (metis prod.collapse)
  with IAdd_cases [OF this] assms Call_IAdd show ?thesis
    by (auto intro: graph_ok_produced graph_ok_same_graph)
next
  case (Call_IMul a b)
  obtain res st' where "IMul env a b st = (res, st')" by (metis prod.collapse)
  with IMul_cases [OF this] assms Call_IMul show ?thesis
    by (auto intro: graph_ok_produced graph_ok_same_graph)
next
  case (Call_Add_out a b out)
  obtain res st' where "Add_out env a b out st = (res, st')" by (metis prod.collapse)
  with Add_out_cases [OF this] assms Call_Add_out show ?thesis
    by (auto intro: graph_ok_produced graph_ok_same_graph)
next
  case (Call_Mul_out a b out)
  obtain res st' where "Mul_out env a b out st = (res, st')" by (metis prod.collapse)
  with Mul_out_cases [OF this] assms Call_Mul_out show ?thesis
    by (auto intro: graph_ok_produced graph_ok_same_graph)
qed

lemma graph_ok_run: "graph_ok st \<Longrightarrow> graph_ok (run env cs st)"
  unfolding run_def by (induction cs arbitrary: st) (simp_all add: graph_ok_exec)

lemma graph_ok_init: "graph_ok (init d)"
  by (simp add: graph_ok_def init_def)

subsection \<open>Existing objects across a call\<close>


lemma extends_refl: "extends x st st"
  by (simp add: extends_def)

lemma extends_trans: "extends x st st1 \<Longrightarrow> extends x st1 st2 \<Longrightarrow> extends x st st2"
  by (auto simp: extends_def)

lemma extends_same_graph: "same_graph st st' \<Longrightarrow> extends x st st'"
  by (simp add: same_graph_def extends_def)

lemma extends_constructed: "constructed st st' \<Longrightarrow> extends x st st'"
  by (auto simp: constructed_def extends_def nth_append)

lemma extends_produced: "produced nm this rhs out st st' \<Longrightarrow> x \<noteq> out \<Longrightarrow> extends x st st'"
  by (auto simp: produced_def extends_def)

lemma extends_exec:
  assumes "output_of c \<noteq> Some x"
  shows "extends x st (exec env c st)"
proof (cases c)
  case (New_buffer bs)
  then show ?thesis by (simp add: extends_def)
next
  case (Set_device d)
  then show ?thesis by (simp add: extends_def)
next
  case (Construct shp dt dat off)
  obtain res st' where "Array_ctor env shp dt dat off st = (res, st')" by (metis prod.collapse)
  with Array_ctor_cases [OF this] Construct show ?thesis
    by (auto intro: extends_constructed)
next
  case (Call_Add a b)
  obtain res st' where e: "Add env a b st = (res, st')" by (metis prod.collapse)
  from Add_cases [OF e] have "extends x st st'"
  proof (elim disjE exE conjE)
    fix e assume "st' = st"
    then show ?thesis by (simp add: extends_refl)
  next
    fix st2 assume "constructed st st2" "same_graph st2 st'"
    then show ?thesis
      using extends_trans [OF extends_constructed extends_same_graph] by blast
  next
    fix st2 assume c: "constructed st st2" and l: "length (arrays st2) = Suc (length (arrays st))"
      and p: "produced ''add'' a b (length (arrays st)) st2 st'"
    from c have 1: "extends x st st2" by (rule extends_constructed)
    show ?thesis
    proof (cases "x < length (arrays st)")
      case True
      then have "extends x st2 st'" using p by (intro extends_produced [OF p]) simp
      with 1 show ?thesis by (rule extends_trans)
    next
      case False
      from p have "extends (Suc (length (arrays st))) st2 st'"
        by (intro extends_produced [OF p]) simp
      with 1 False show ?thesis by (auto simp: extends_def)
    qed
  qed
  with e Call_Add show ?thesis by simp
next
  case (Call_Mul a b)
  obtain res st' where e: "Mul env a b st = (res, st')" by (metis prod.collapse)
  from Mul_cases [OF e] have "extends x st st'"
  proof (elim disjE exE conjE)
    fix e assume "st' = st"
    then show ?thesis by (simp add: extends_refl)
  next
    fix st2 assume "constructed st st2" "same_graph st2 st'"
    then show ?thesis
      using extends_trans [OF extends_constructed extends_same_graph] by blast
  next
    fix st2 assume c: "constructed st st2" and l: "length (arrays st2) = Suc (length (arrays st))"
      and p: "produced ''mul'' a b (length (arrays st)) st2 st'"
    from c have 1: "extends x st st2" by (rule extends_constructed)
    show ?thesis
    proof (cases "x < length (arrays st)")
      case True
      then have "extends x st2 st'" using p by (intro extends_produced [OF p]) simp
      with 1 show ?thesis by (rule extends_trans)
    next
      case False
      from p have "extends (Suc (length (arrays st))) st2 st'"
        by (intro extends_produced [OF p]) simp
      with 1 False show ?thesis by (auto simp: extends_def)
    qed
  qed
  with e Call_Mul show ?thesis by simp
next
  case (Call_IAdd a b)
  obtain res st' where e: "IAdd env a b st = (res, st')" by (metis prod.collapse)
  with IAdd_cases [OF e] assms Call_IAdd show ?thesis
    by (auto intro: extends_same_graph extends_produced)
next
  case (Call_IMul a b)
  obtain res st' where e: "IMul env a b st = (res, st')" by (metis prod.collapse)
  with IMul_cases [OF e] assms Call_IMul show ?thesis
    by (auto intro: extends_same_graph extends_produced)
next
  case (Call_Add_out a b out)
  obtain res st' where e: "Add_out env a b out st = (res, st')" by (metis prod.collapse)
  with Add_out_cases [OF e] assms Call_Add_out show ?thesis
    by (auto intro: extends_same_graph extends_produced)
next
  case (Call_Mul_out a b out)
  obtain res st' where e: "Mul_out env a b out st = (res, st')" by (metis prod.collapse)
  with Mul_out_cases [OF e] assms Call_Mul_out show ?thesis
    by (auto intro: extends_same_graph extends_produced)
qed

lemma extends_run:
  "\<forall>c \<in> set cs. output_of c \<noteq> Some x \<Longrightarrow> extends x st (run env cs st)"
proof (induction cs arbitrary: st)
  case Nil
  show ?case by (simp add: run_def extends_refl)
next
  case (Cons c cs)
  have "extends x st (exec env c st)" using Cons.prems by (intro extends_exec) simp
  moreover have "extends x (exec env c st) (run env cs (exec env c st))"
    using Cons.prems by (intro Cons.IH) simp
  ultimately have "extends x st (run env cs (exec env c st))" by (rule extends_trans)
  then show ?case by (simp add: run_def)
qed

text \<open>Nodes are never touched by a later call, whatever the call writes to.\<close>

lemma anodes_exec: "\<exists>ns. anodes (exec env c st) = anodes st @ ns"
proof (cases "output_of c")
  case None
  then have "extends 0 st (exec env c st)" by (intro extends_exec) simp
  then show ?thesis by (simp add: extends_def)
next
  case (Some out)
  then have "extends (Suc out) st (exec env c st)" by (intro extends_exec) simp
  then show ?thesis by (simp add: extends_def)
qed

lemma anodes_run: "\<exists>ns. anodes (run env cs st) = anodes st @ ns"
proof (induction cs arbitrary: st)
  case Nil
  show ?case by (simp add: run_def)
next
  case (Cons c cs)
  obtain ns1 where 1: "anodes (exec env c st) = anodes st @ ns1" using anodes_exec by blast
  obtain ns2 where "anodes (run env cs (exec env c st)) = anodes (exec env c st) @ ns2"
    using Cons.IH by blast
  with 1 show ?case by (simp add: run_def)
qed

subsection \<open>The dump returns\<close>

lemma dump_node_returns:
  assumes ok: "graph_ok st"
  shows "n < length (anodes st) \<Longrightarrow> n < fuel \<Longrightarrow> \<exists>res. dump_node ptr st fuel os n indent = Some res"
proof (induction n arbitrary: fuel os indent rule: less_induct)
  case (less n)
  from less.prems obtain f where fuel: "fuel = Suc f" and nf: "n \<le> f"
    by (cases fuel) simp_all
  have ops: "\<exists>res. dump_next_nodes ptr st f os' ms ind = Some res"
    if "\<forall>m \<in> set ms. m < n" for ms os' ind
    using that
  proof (induction ms arbitrary: os')
    case Nil
    show ?case by simp
  next
    case (Cons m ms)
    then have m: "m < n" by simp
    with less.prems nf have "m < length (anodes st)" "m < f" by simp_all
    from less.IH [OF m this] obtain res where r: "dump_node ptr st f os' m ind = Some res" by blast
    show ?case
    proof (cases res)
      case (Inl e)
      with r show ?thesis by simp
    next
      case (Inr os'')
      with r Cons show ?thesis by simp
    qed
  qed
  show ?case
  proof (cases "anodes st ! n")
    case None
    with less.prems fuel show ?thesis by (simp add: get_anode_def split: sum.splits)
  next
    case (Some p)
    with ok less.prems have p: "p < length (onodes st)"
      and ms: "\<forall>m \<in> set (next_nodes (onodes st ! p)). m < n"
      by (simp_all add: graph_ok_def)
    from ops [OF ms] Some p less.prems fuel show ?thesis
      by (simp add: get_anode_def get_onode_def split: sum.splits)
  qed
qed

lemma ex_prog_run:
  "run ex_env ex_prog (init Cpu) =
     \<lparr>arrays = [ex_a, ex_b,
        \<lparr>shape = [2], is_contiguous = True, dtype = kInt32, data = (2, 0), offset = 0, node = 3\<rparr>],
      bufs = [[1, 0, 0, 0, 2, 0, 0, 0], [3, 0, 0, 0, 4, 0, 0, 0], [4, 0, 0, 0, 6, 0, 0, 0]],
      anodes = [None, None, None, Some 0],
      onodes = [\<lparr>name = ''add'', next_nodes = [0, 1]\<rparr>], device = Cpu\<rparr>"
  by code_simp

lemma ex_dump:
  "DebugDumpComputationalGraph ex_ptr (run ex_env ex_prog (init Cpu)) 4 [] 2 0 =
     Some (Inr (''ArrayNode<3>'' @ [CHR 0x0A] @ ''  Op<add>'' @ [CHR 0x0A]
       @ ''    ArrayNode<0>'' @ [CHR 0x0A] @ ''    ArrayNode<1>'' @ [CHR 0x0A]))"
  by code_simp

text \<open>
  From an indentation of \<open>2 ^ 30\<close> on, \<^verbatim>\<open>indent * 2\<close> no longer fits an \<^verbatim>\<open>int\<close>: the
  dump still returns, with the exception of the string constructor.
\<close>

lemma ex_dump_overflow:
  "DebugDumpComputationalGraph ex_ptr (run ex_env ex_prog (init Cpu)) 4 [] 2 0x40000000 =
     Some (Inl LengthError)"
  by code_simp

text \<open>
  C8. In every store built from the empty store by constructions, \<^verbatim>\<open>Add\<close>, \<^verbatim>\<open>Mul\<close>,
  \<^verbatim>\<open>IAdd\<close>, \<^verbatim>\<open>IMul\<close> and the forms with an explicit output, the operands of every node's
  producer are older than the node, and the dump of any \<^verbatim>\<open>Array\<close> returns: with one unit
  of fuel for each node of the store it yields a result, the text or an exception.
  The dump reads the store and returns the stream only, so it cannot change the graph.
\<close>

theorem dump_terminates:
  "graph_ok (run env cs (init d)) \<and>
   (length (anodes (run env cs (init d))) \<le> fuel \<longrightarrow>
      (\<exists>res. DebugDumpComputationalGraph ptr (run env cs (init d)) fuel os a indent = Some res))"
proof (intro conjI impI)
  let ?st = "run env cs (init d)"
  show ok: "graph_ok ?st" by (intro graph_ok_run graph_ok_init)
  assume fuel: "length (anodes ?st) \<le> fuel"
  show "\<exists>res. DebugDumpComputationalGraph ptr ?st fuel os a indent = Some res"
  proof (cases "get_array ?st a")
    case None
    then show ?thesis by (simp add: DebugDumpComputationalGraph_def)
  next
    case (Some arr)
    then have "arr \<in> set (arrays ?st)" by (auto simp: get_array_def split: if_splits)
    with ok have n: "node arr < length (anodes ?st)" by (simp add: graph_ok_def)
    with fuel have "node arr < fuel" by simp
    from dump_node_returns [OF ok n this] Some show ?thesis
      by (simp add: DebugDumpComputationalGraph_def)
  qed
qed

theorem dump_terminates_witness:
  "length (anodes (run ex_env ex_prog (init Cpu))) \<le> 4 \<and>
   graph_ok (run ex_env ex_prog (init Cpu)) \<and>
   (\<exists>res. DebugDumpComputationalGraph ex_ptr (run ex_env ex_prog (init Cpu)) 4 [] 2 0 = Some res)"
proof -
  have h: "length (anodes (run ex_env ex_prog (init Cpu))) \<le> 4"
    by code_simp
  show ?thesis
    using dump_terminates [of ex_env ex_prog Cpu 4 ex_ptr "[]" 2 0] h by simp
qed

text \<open>
  C6. A construction always appends one node with no producer to the store, also when
  it then fails, and the \<^verbatim>\<open>Array\<close> it returns is bound to that node. A node of the store
  is never changed by any later call: its producer is the one it had when the call
  that created it returned, so a producer is set once, on the node a kernel has just
  created, and never reassigned. An \<^verbatim>\<open>Array\<close> whose node is a leaf and which no later
  call takes as its output keeps that node, and the node stays a leaf.
\<close>

theorem producer_write_once:
  "anodes (snd (Array_ctor env shp dt dat off st)) = anodes st @ [None] \<and>
   (fst (Array_ctor env shp dt dat off st) = Inr c \<longrightarrow>
      (\<exists>C. get_array (snd (Array_ctor env shp dt dat off st)) c = Some C \<and>
           node C = length (anodes st))) \<and>
   (n < length (anodes st) \<longrightarrow>
      n < length (anodes (run env cs st)) \<and> anodes (run env cs st) ! n = anodes st ! n) \<and>
   (x < length (arrays st) \<and> node (arrays st ! x) < length (anodes st) \<and>
    anodes st ! node (arrays st ! x) = None \<and> (\<forall>call \<in> set cs. output_of call \<noteq> Some x) \<longrightarrow>
      x < length (arrays (run env cs st)) \<and>
      node (arrays (run env cs st) ! x) = node (arrays st ! x) \<and>
      anodes (run env cs st) ! node (arrays (run env cs st) ! x) = None)"
proof (intro conjI impI)
  obtain res st' where ct: "Array_ctor env shp dt dat off st = (res, st')" by (metis prod.collapse)
  from Array_ctor_cases [OF ct] have c: "constructed st st'"
    and r: "(\<exists>e. res = Inl e \<and> arrays st' = arrays st) \<or>
      (res = Inr (length (arrays st)) \<and> length (arrays st') = Suc (length (arrays st)))"
    by simp_all
  from c ct show "anodes (snd (Array_ctor env shp dt dat off st)) = anodes st @ [None]"
    by (simp add: constructed_def)
  assume "fst (Array_ctor env shp dt dat off st) = Inr c"
  with ct r have "c = length (arrays st)" "length (arrays st') = Suc (length (arrays st))" by auto
  with c obtain a where "arrays st' = arrays st @ [a]" "node a = length (anodes st)"
    by (auto simp: constructed_def)
  with ct \<open>c = length (arrays st)\<close>
  show "\<exists>C. get_array (snd (Array_ctor env shp dt dat off st)) c = Some C \<and> node C = length (anodes st)"
    by (simp add: get_array_def)
next
  assume n: "n < length (anodes st)"
  obtain ns where "anodes (run env cs st) = anodes st @ ns" using anodes_run by blast
  with n show "n < length (anodes (run env cs st))" "anodes (run env cs st) ! n = anodes st ! n"
    by (simp_all add: nth_append)
next
  assume a: "x < length (arrays st) \<and> node (arrays st ! x) < length (anodes st) \<and>
    anodes st ! node (arrays st ! x) = None \<and> (\<forall>call \<in> set cs. output_of call \<noteq> Some x)"
  then have "extends x st (run env cs st)" by (intro extends_run) simp
  with a show "x < length (arrays (run env cs st))"
    "node (arrays (run env cs st) ! x) = node (arrays st ! x)"
    "anodes (run env cs st) ! node (arrays (run env cs st) ! x) = None"
    by (auto simp: extends_def nth_append)
qed

theorem producer_write_once_witness:
  "fst (Array_ctor ex_env [2] kInt32 (1, 0) 0 ex_st) = Inr 2 \<and>
   1 < length (anodes ex_st) \<and>
   (0 < length (arrays ex_st) \<and> node (arrays ex_st ! 0) < length (anodes ex_st) \<and>
    anodes ex_st ! node (arrays ex_st ! 0) = None \<and>
    output_of (Call_Add 0 1) \<noteq> Some 0 \<and> output_of (Call_IAdd 1 0) \<noteq> Some 0) \<and>
   anodes (snd (Array_ctor ex_env [2] kInt32 (1, 0) 0 ex_st)) = anodes ex_st @ [None] \<and>
   (\<exists>C. get_array (snd (Array_ctor ex_env [2] kInt32 (1, 0) 0 ex_st)) 2 = Some C \<and>
        node C = length (anodes ex_st)) \<and>
   (1 < length (anodes (run ex_env [Call_Add 0 1, Call_IAdd 1 0] ex_st)) \<and>
    anodes (run ex_env [Call_Add 0 1, Call_IAdd 1 0] ex_st) ! 1 = anodes ex_st ! 1) \<and>
   (0 < length (arrays (run ex_env [Call_Add 0 1, Call_IAdd 1 0] ex_st)) \<and>
    node (arrays (run ex_env [Call_Add 0 1, Call_IAdd 1 0] ex_st) ! 0) = node (arrays ex_st ! 0) \<and>
    anodes (run ex_env [Call_Add 0 1, Call_IAdd 1 0] ex_st)
      ! node (arrays (run ex_env [Call_Add 0 1, Call_IAdd 1 0] ex_st) ! 0) = None)"
proof -
  have h1: "fst (Array_ctor ex_env [2] kInt32 (1, 0) 0 ex_st) = Inr 2"
    by code_simp
  have h2: "1 < length (anodes ex_st)"
    by (simp add: ex_st_def)
  have h3: "0 < length (arrays ex_st) \<and> node (arrays ex_st ! 0) < length (anodes ex_st) \<and>
    anodes ex_st ! node (arrays ex_st ! 0) = None \<and>
    (\<forall>call \<in> set [Call_Add 0 1, Call_IAdd 1 0]. output_of call \<noteq> Some 0)"
    by (simp add: ex_st_def ex_a_def)
  have h4: "output_of (Call_Add 0 1) \<noteq> Some 0 \<and> output_of (Call_IAdd 1 0) \<noteq> Some 0"
    by simp
  show ?thesis
    using producer_write_once [of ex_env "[2]" kInt32 "(1, 0)" 0 ex_st 2 1 "[Call_Add 0 1, Call_IAdd 1 0]" 0]
      h1 h2 h3 h4 by blast
qed

subsection \<open>Provenance\<close>

lemma produced_after_constructed:
  assumes c: "constructed st st2" and l: "length (arrays st2) = Suc (length (arrays st))"
    and p: "produced nm a b (length (arrays st)) st2 st'"
    and a: "get_array st a = Some A" and b: "get_array st b = Some B"
    and nA: "node A < length (anodes st)" and nB: "node B < length (anodes st)"
  shows "\<exists>C p. get_array st' (length (arrays st)) = Some C \<and> length (anodes st) \<le> node C \<and>
      get_anode st' (node C) = Some (Some p) \<and> length (onodes st) \<le> p \<and>
      get_onode st' p = Some \<lparr>name = nm, next_nodes = [node A, node B]\<rparr> \<and>
      get_array st' a = Some A \<and> get_array st' b = Some B \<and>
      get_anode st' (node A) = get_anode st (node A) \<and>
      get_anode st' (node B) = get_anode st (node B)"
proof -
  from a b have lt: "a < length (arrays st)" "b < length (arrays st)"
    and ab: "arrays st ! a = A" "arrays st ! b = B"
    by (simp_all add: get_array_def split: if_splits)
  from c l obtain a0 where ar2: "arrays st2 = arrays st @ [a0]"
    and an2: "anodes st2 = anodes st @ [None]" and on2: "onodes st2 = onodes st"
    by (auto simp: constructed_def)
  from p have ar: "arrays st' = (arrays st2)[length (arrays st) :=
        (arrays st2 ! length (arrays st))\<lparr>node := length (anodes st2)\<rparr>]"
    and an: "anodes st' = anodes st2 @ [Some (length (onodes st2))]"
    and on: "onodes st' = onodes st2 @
       [\<lparr>name = nm, next_nodes = [node (arrays st2 ! a), node (arrays st2 ! b)]\<rparr>]"
    by (simp_all add: produced_def)
  have ar': "arrays st' = arrays st @ [a0\<lparr>node := Suc (length (anodes st))\<rparr>]"
    unfolding ar ar2 an2 by simp
  have an': "anodes st' = anodes st @ [None, Some (length (onodes st))]"
    unfolding an an2 on2 by simp
  have on': "onodes st' = onodes st @ [\<lparr>name = nm, next_nodes = [node A, node B]\<rparr>]"
    unfolding on on2 ar2 using lt ab by (simp add: nth_append)
  show ?thesis
    using lt ab nA nB
    by (simp add: get_array_def get_anode_def get_onode_def ar' an' on' nth_append)
qed

text \<open>
  C2. When \<^verbatim>\<open>c = a.Add(b)\<close> returns, for \<open>a\<close> and \<open>b\<close> bound to nodes of the store, the
  node of \<open>c\<close> did not exist before the call, and its producer is an edge record that
  did not exist before the call, named \<open>add\<close>, whose operands are the node \<open>a\<close> had at
  the call and the node \<open>b\<close> had at the call, in this order; \<open>a\<close> and \<open>b\<close> keep their
  nodes, and these nodes are as before, so a leaf stays a leaf. The same holds for
  \<^verbatim>\<open>Mul\<close> with the name \<open>mul\<close>.
\<close>

theorem Add_Mul_provenance:
  assumes "get_array st a = Some A" and "get_array st b = Some B"
    and "node A < length (anodes st)" and "node B < length (anodes st)"
  shows "(Add env a b st = (Inr c, st') \<longrightarrow>
           (\<exists>C p. get_array st' c = Some C \<and> length (anodes st) \<le> node C \<and>
              get_anode st' (node C) = Some (Some p) \<and> length (onodes st) \<le> p \<and>
              get_onode st' p = Some \<lparr>name = ''add'', next_nodes = [node A, node B]\<rparr> \<and>
              get_array st' a = Some A \<and> get_array st' b = Some B \<and>
              get_anode st' (node A) = get_anode st (node A) \<and>
              get_anode st' (node B) = get_anode st (node B))) \<and>
         (Mul env a b st = (Inr c, st') \<longrightarrow>
           (\<exists>C p. get_array st' c = Some C \<and> length (anodes st) \<le> node C \<and>
              get_anode st' (node C) = Some (Some p) \<and> length (onodes st) \<le> p \<and>
              get_onode st' p = Some \<lparr>name = ''mul'', next_nodes = [node A, node B]\<rparr> \<and>
              get_array st' a = Some A \<and> get_array st' b = Some B \<and>
              get_anode st' (node A) = get_anode st (node A) \<and>
              get_anode st' (node B) = get_anode st (node B)))"
proof (intro conjI impI)
  assume e: "Add env a b st = (Inr c, st')"
  from Add_cases [OF e] obtain st2 where "constructed st st2"
    "length (arrays st2) = Suc (length (arrays st))" "c = length (arrays st)"
    "produced ''add'' a b (length (arrays st)) st2 st'" by auto
  with produced_after_constructed [OF this(1,2,4) assms]
  show "\<exists>C p. get_array st' c = Some C \<and> length (anodes st) \<le> node C \<and>
              get_anode st' (node C) = Some (Some p) \<and> length (onodes st) \<le> p \<and>
              get_onode st' p = Some \<lparr>name = ''add'', next_nodes = [node A, node B]\<rparr> \<and>
              get_array st' a = Some A \<and> get_array st' b = Some B \<and>
              get_anode st' (node A) = get_anode st (node A) \<and>
              get_anode st' (node B) = get_anode st (node B)" by simp
next
  assume e: "Mul env a b st = (Inr c, st')"
  from Mul_cases [OF e] obtain st2 where "constructed st st2"
    "length (arrays st2) = Suc (length (arrays st))" "c = length (arrays st)"
    "produced ''mul'' a b (length (arrays st)) st2 st'" by auto
  with produced_after_constructed [OF this(1,2,4) assms]
  show "\<exists>C p. get_array st' c = Some C \<and> length (anodes st) \<le> node C \<and>
              get_anode st' (node C) = Some (Some p) \<and> length (onodes st) \<le> p \<and>
              get_onode st' p = Some \<lparr>name = ''mul'', next_nodes = [node A, node B]\<rparr> \<and>
              get_array st' a = Some A \<and> get_array st' b = Some B \<and>
              get_anode st' (node A) = get_anode st (node A) \<and>
              get_anode st' (node B) = get_anode st (node B)" by simp
qed

theorem Add_Mul_provenance_witness:
  "get_array ex_st 0 = Some ex_a \<and> get_array ex_st 1 = Some ex_b \<and>
   node ex_a < length (anodes ex_st) \<and> node ex_b < length (anodes ex_st) \<and>
   get_anode ex_st (node ex_a) = Some None \<and> get_anode ex_st (node ex_b) = Some None \<and>
   Add ex_env 0 1 ex_st = (Inr 2, snd (Add ex_env 0 1 ex_st)) \<and>
   Mul ex_env 0 1 ex_st = (Inr 2, snd (Mul ex_env 0 1 ex_st)) \<and>
   (\<exists>C p. get_array (snd (Add ex_env 0 1 ex_st)) 2 = Some C \<and> length (anodes ex_st) \<le> node C \<and>
      get_anode (snd (Add ex_env 0 1 ex_st)) (node C) = Some (Some p) \<and>
      length (onodes ex_st) \<le> p \<and>
      get_onode (snd (Add ex_env 0 1 ex_st)) p
        = Some \<lparr>name = ''add'', next_nodes = [node ex_a, node ex_b]\<rparr> \<and>
      get_array (snd (Add ex_env 0 1 ex_st)) 0 = Some ex_a \<and>
      get_array (snd (Add ex_env 0 1 ex_st)) 1 = Some ex_b \<and>
      get_anode (snd (Add ex_env 0 1 ex_st)) (node ex_a) = get_anode ex_st (node ex_a) \<and>
      get_anode (snd (Add ex_env 0 1 ex_st)) (node ex_b) = get_anode ex_st (node ex_b)) \<and>
   (\<exists>C p. get_array (snd (Mul ex_env 0 1 ex_st)) 2 = Some C \<and> length (anodes ex_st) \<le> node C \<and>
      get_anode (snd (Mul ex_env 0 1 ex_st)) (node C) = Some (Some p) \<and>
      length (onodes ex_st) \<le> p \<and>
      get_onode (snd (Mul ex_env 0 1 ex_st)) p
        = Some \<lparr>name = ''mul'', next_nodes = [node ex_a, node ex_b]\<rparr> \<and>
      get_array (snd (Mul ex_env 0 1 ex_st)) 0 = Some ex_a \<and>
      get_array (snd (Mul ex_env 0 1 ex_st)) 1 = Some ex_b \<and>
      get_anode (snd (Mul ex_env 0 1 ex_st)) (node ex_a) = get_anode ex_st (node ex_a) \<and>
      get_anode (snd (Mul ex_env 0 1 ex_st)) (node ex_b) = get_anode ex_st (node ex_b))"
proof -
  have h: "get_array ex_st 0 = Some ex_a" "get_array ex_st 1 = Some ex_b"
    "node ex_a < length (anodes ex_st)" "node ex_b < length (anodes ex_st)"
    by (simp_all add: ex_st_def ex_a_def ex_b_def get_array_def)
  have leaf: "get_anode ex_st (node ex_a) = Some None" "get_anode ex_st (node ex_b) = Some None"
    by (simp_all add: ex_st_def ex_a_def ex_b_def get_anode_def)
  have "fst (Add ex_env 0 1 ex_st) = Inr 2" by code_simp
  then have ha: "Add ex_env 0 1 ex_st = (Inr 2, snd (Add ex_env 0 1 ex_st))"
    by (metis prod.collapse)
  have "fst (Mul ex_env 0 1 ex_st) = Inr 2" by code_simp
  then have hm: "Mul ex_env 0 1 ex_st = (Inr 2, snd (Mul ex_env 0 1 ex_st))"
    by (metis prod.collapse)
  from Add_Mul_provenance [OF h, of ex_env 2 "snd (Add ex_env 0 1 ex_st)"] ha
  have 1: "\<exists>C p. get_array (snd (Add ex_env 0 1 ex_st)) 2 = Some C \<and> length (anodes ex_st) \<le> node C \<and>
      get_anode (snd (Add ex_env 0 1 ex_st)) (node C) = Some (Some p) \<and>
      length (onodes ex_st) \<le> p \<and>
      get_onode (snd (Add ex_env 0 1 ex_st)) p
        = Some \<lparr>name = ''add'', next_nodes = [node ex_a, node ex_b]\<rparr> \<and>
      get_array (snd (Add ex_env 0 1 ex_st)) 0 = Some ex_a \<and>
      get_array (snd (Add ex_env 0 1 ex_st)) 1 = Some ex_b \<and>
      get_anode (snd (Add ex_env 0 1 ex_st)) (node ex_a) = get_anode ex_st (node ex_a) \<and>
      get_anode (snd (Add ex_env 0 1 ex_st)) (node ex_b) = get_anode ex_st (node ex_b)"
    by blast
  from Add_Mul_provenance [OF h, of ex_env 2 "snd (Mul ex_env 0 1 ex_st)"] hm
  have 2: "\<exists>C p. get_array (snd (Mul ex_env 0 1 ex_st)) 2 = Some C \<and> length (anodes ex_st) \<le> node C \<and>
      get_anode (snd (Mul ex_env 0 1 ex_st)) (node C) = Some (Some p) \<and>
      length (onodes ex_st) \<le> p \<and>
      get_onode (snd (Mul ex_env 0 1 ex_st)) p
        = Some \<lparr>name = ''mul'', next_nodes = [node ex_a, node ex_b]\<rparr> \<and>
      get_array (snd (Mul ex_env 0 1 ex_st)) 0 = Some ex_a \<and>
      get_array (snd (Mul ex_env 0 1 ex_st)) 1 = Some ex_b \<and>
      get_anode (snd (Mul ex_env 0 1 ex_st)) (node ex_a) = get_anode ex_st (node ex_a) \<and>
      get_anode (snd (Mul ex_env 0 1 ex_st)) (node ex_b) = get_anode ex_st (node ex_b)"
    by blast
  from h leaf ha hm 1 2 show ?thesis by blast
qed

subsection \<open>Failing preconditions\<close>

lemma Add_out_mismatch:
  assumes "get_array st a = Some A" "get_array st b = Some B"
    "dtype A \<noteq> dtype B \<or> shape A \<noteq> shape B"
  shows "Add_out env a b out st = (Inl (if dtype A = dtype B then ShapeMismatch else DtypeMismatch), st)"
  using assms by (auto simp: Add_out_dtype_mismatch Add_out_shape_mismatch)

lemma Mul_out_mismatch:
  assumes "get_array st a = Some A" "get_array st b = Some B"
    "dtype A \<noteq> dtype B \<or> shape A \<noteq> shape B"
  shows "Mul_out env a b out st = (Inl (if dtype A = dtype B then ShapeMismatch else DtypeMismatch), st)"
  using assms by (auto simp: Mul_out_dtype_mismatch Mul_out_shape_mismatch)

lemma Array_ctor_on_fresh_buffer:
  assumes "device st = Cpu \<or> enable_cuda env \<and> cuda_malloc_ok env (total_size shp * GetElementSize dt)"
  shows "\<exists>st2. Array_ctor env shp dt (length (bufs st), 0) off
            (st\<lparr>bufs := bufs st @ [replicate (total_size shp * GetElementSize dt) 0]\<rparr>)
          = (Inr (length (arrays st)), st2)"
proof (cases "device st")
  case Cpu
  then show ?thesis by (simp add: Array_ctor_cpu)
next
  case Cuda
  with assms show ?thesis by (subst Array_ctor_cuda) (simp_all add: in_buffer_def)
qed

lemma Add_mismatch:
  assumes a: "get_array st a = Some A" and b: "get_array st b = Some B"
    and m: "dtype A \<noteq> dtype B \<or> shape A \<noteq> shape B"
  shows "\<exists>e st2. Add env a b st = (Inl e, st2) \<and> constructed st st2 \<and>
     take (Suc (length (bufs st))) (bufs st2) = bufs st @ [replicate (total_bytes A) 0] \<and>
     (device st = Cpu \<or> enable_cuda env \<and> cuda_malloc_ok env (total_bytes A) \<longrightarrow>
        e = (if dtype A = dtype B then ShapeMismatch else DtypeMismatch) \<and>
        length (arrays st2) = Suc (length (arrays st)) \<and> length (bufs st) < length (bufs st2))"
proof -
  let ?st1 = "st\<lparr>bufs := bufs st @ [replicate (total_bytes A) 0]\<rparr>"
  from a b have lt: "a < length (arrays st)" "b < length (arrays st)"
    and ab: "arrays st ! a = A" "arrays st ! b = B"
    by (simp_all add: get_array_def split: if_splits)
  obtain res2 st2 where ct: "Array_ctor env (shape A) (dtype A) (length (bufs st), 0) 0 ?st1 = (res2, st2)"
    by (metis prod.collapse)
  from Array_ctor_cases [OF ct] have c1: "constructed ?st1 st2"
    and c2: "(\<exists>e. res2 = Inl e \<and> arrays st2 = arrays ?st1) \<or>
      (res2 = Inr (length (arrays ?st1)) \<and> length (arrays st2) = Suc (length (arrays ?st1)))"
    by simp_all
  have c: "constructed st st2" using constructed_after_buffer [OF c1] .
  from c1 have bl: "length (bufs st) < length (bufs st2)" by (simp add: constructed_def)
  from c1 have zs: "take (Suc (length (bufs st))) (bufs st2) = bufs st @ [replicate (total_bytes A) 0]"
    by (simp add: constructed_def)
  have dev: "\<exists>st2'. res2 = Inr (length (arrays st))"
    if "device st = Cpu \<or> enable_cuda env \<and> cuda_malloc_ok env (total_bytes A)"
    using Array_ctor_on_fresh_buffer [of st env "shape A" "dtype A" 0] that ct
    by (auto simp: total_bytes_def)
  from c2 show ?thesis
  proof
    assume "\<exists>e. res2 = Inl e \<and> arrays st2 = arrays ?st1"
    then obtain e where e: "res2 = Inl e" by blast
    with a ct have "Add env a b st = (Inl e, st2)"
      by (simp add: Add_def bindM_def make_unique_def)
    with c e dev zs show ?thesis by auto
  next
    assume r: "res2 = Inr (length (arrays ?st1)) \<and> length (arrays st2) = Suc (length (arrays ?st1))"
    with c obtain a0 where "arrays st2 = arrays st @ [a0]" by (auto simp: constructed_def)
    with lt ab have g: "get_array st2 a = Some A" "get_array st2 b = Some B"
      by (simp_all add: get_array_def nth_append)
    from a ct r Add_out_mismatch [OF g m, of env "length (arrays st)"]
    have "Add env a b st = (Inl (if dtype A = dtype B then ShapeMismatch else DtypeMismatch), st2)"
      by (simp add: Add_def bindM_def make_unique_def)
    with c r bl zs show ?thesis by simp
  qed
qed

lemma Mul_mismatch:
  assumes a: "get_array st a = Some A" and b: "get_array st b = Some B"
    and m: "dtype A \<noteq> dtype B \<or> shape A \<noteq> shape B"
  shows "\<exists>e st2. Mul env a b st = (Inl e, st2) \<and> constructed st st2 \<and>
     take (Suc (length (bufs st))) (bufs st2) = bufs st @ [replicate (total_bytes A) 0] \<and>
     (device st = Cpu \<or> enable_cuda env \<and> cuda_malloc_ok env (total_bytes A) \<longrightarrow>
        e = (if dtype A = dtype B then ShapeMismatch else DtypeMismatch) \<and>
        length (arrays st2) = Suc (length (arrays st)) \<and> length (bufs st) < length (bufs st2))"
proof -
  let ?st1 = "st\<lparr>bufs := bufs st @ [replicate (total_bytes A) 0]\<rparr>"
  from a b have lt: "a < length (arrays st)" "b < length (arrays st)"
    and ab: "arrays st ! a = A" "arrays st ! b = B"
    by (simp_all add: get_array_def split: if_splits)
  obtain res2 st2 where ct: "Array_ctor env (shape A) (dtype A) (length (bufs st), 0) 0 ?st1 = (res2, st2)"
    by (metis prod.collapse)
  from Array_ctor_cases [OF ct] have c1: "constructed ?st1 st2"
    and c2: "(\<exists>e. res2 = Inl e \<and> arrays st2 = arrays ?st1) \<or>
      (res2 = Inr (length (arrays ?st1)) \<and> length (arrays st2) = Suc (length (arrays ?st1)))"
    by simp_all
  have c: "constructed st st2" using constructed_after_buffer [OF c1] .
  from c1 have bl: "length (bufs st) < length (bufs st2)" by (simp add: constructed_def)
  from c1 have zs: "take (Suc (length (bufs st))) (bufs st2) = bufs st @ [replicate (total_bytes A) 0]"
    by (simp add: constructed_def)
  have dev: "\<exists>st2'. res2 = Inr (length (arrays st))"
    if "device st = Cpu \<or> enable_cuda env \<and> cuda_malloc_ok env (total_bytes A)"
    using Array_ctor_on_fresh_buffer [of st env "shape A" "dtype A" 0] that ct
    by (auto simp: total_bytes_def)
  from c2 show ?thesis
  proof
    assume "\<exists>e. res2 = Inl e \<and> arrays st2 = arrays ?st1"
    then obtain e where e: "res2 = Inl e" by blast
    with a ct have "Mul env a b st = (Inl e, st2)"
      by (simp add: Mul_def bindM_def make_unique_def)
    with c e dev zs show ?thesis by auto
  next
    assume r: "res2 = Inr (length (arrays ?st1)) \<and> length (arrays st2) = Suc (length (arrays ?st1))"
    with c obtain a0 where "arrays st2 = arrays st @ [a0]" by (auto simp: constructed_def)
    with lt ab have g: "get_array st2 a = Some A" "get_array st2 b = Some B"
      by (simp_all add: get_array_def nth_append)
    from a ct r Mul_out_mismatch [OF g m, of env "length (arrays st)"]
    have "Mul env a b st = (Inl (if dtype A = dtype B then ShapeMismatch else DtypeMismatch), st2)"
      by (simp add: Mul_def bindM_def make_unique_def)
    with c r bl zs show ?thesis by simp
  qed
qed

text \<open>
  C3, as stated, fails: on the Arrays of shapes \<open>[2, 3]\<close> and \<open>[3, 2]\<close> the out-of-place
  \<^verbatim>\<open>Add\<close> fails with \<open>ShapeMismatch\<close>, but it has allocated the output buffer of 24
  zero bytes before the check.
\<close>

theorem shape_mismatch_allocates:
  "get_array ex_mm 0 = Some ex_m0 \<and> get_array ex_mm 1 = Some ex_m1 \<and>
   dtype ex_m0 = dtype ex_m1 \<and> shape ex_m0 \<noteq> shape ex_m1 \<and>
   fst (Add ex_env 0 1 ex_mm) = Inl ShapeMismatch \<and>
   bufs (snd (Add ex_env 0 1 ex_mm)) = bufs ex_mm @ [replicate 24 0]"
  by code_simp

text \<open>
  C3, amended. For Arrays of one dtype and different shapes, the forms that write into
  an Array of the caller (\<^verbatim>\<open>Add(rhs, out)\<close>, \<^verbatim>\<open>Mul(rhs, out)\<close>, \<^verbatim>\<open>IAdd\<close>, \<^verbatim>\<open>IMul\<close>) fail
  with \<open>ShapeMismatch\<close> and leave the store as it was: nothing is allocated and nothing
  is written. The out-of-place \<^verbatim>\<open>Add(rhs)\<close> and \<^verbatim>\<open>Mul(rhs)\<close> construct the output first
  and then fail: the store has gained the output's buffers, the first of which is the
  buffer of \<open>total_bytes\<close> zero bytes, and one leaf node, every buffer that existed is
  unchanged, no existing \<^verbatim>\<open>Array\<close> or node is changed and no edge record is created;
  where the construction succeeds (on the CPU, or in a build with CUDA whose allocation
  succeeds) the failure is \<open>ShapeMismatch\<close>.
\<close>

theorem shape_mismatch_fails:
  assumes "get_array st a = Some A" and "get_array st b = Some B"
    and "dtype A = dtype B" and "shape A \<noteq> shape B"
  shows "Add_out env a b out st = (Inl ShapeMismatch, st) \<and>
         Mul_out env a b out st = (Inl ShapeMismatch, st) \<and>
         IAdd env a b st = (Inl ShapeMismatch, st) \<and>
         IMul env a b st = (Inl ShapeMismatch, st) \<and>
         (\<exists>e st2. Add env a b st = (Inl e, st2) \<and> constructed st st2 \<and>
            take (Suc (length (bufs st))) (bufs st2) = bufs st @ [replicate (total_bytes A) 0] \<and>
            (device st = Cpu \<or> enable_cuda env \<and> cuda_malloc_ok env (total_bytes A) \<longrightarrow>
               e = ShapeMismatch \<and> length (arrays st2) = Suc (length (arrays st)) \<and>
               length (bufs st) < length (bufs st2))) \<and>
         (\<exists>e st2. Mul env a b st = (Inl e, st2) \<and> constructed st st2 \<and>
            take (Suc (length (bufs st))) (bufs st2) = bufs st @ [replicate (total_bytes A) 0] \<and>
            (device st = Cpu \<or> enable_cuda env \<and> cuda_malloc_ok env (total_bytes A) \<longrightarrow>
               e = ShapeMismatch \<and> length (arrays st2) = Suc (length (arrays st)) \<and>
               length (bufs st) < length (bufs st2)))"
proof -
  have m: "dtype A \<noteq> dtype B \<or> shape A \<noteq> shape B" using assms(4) by simp
  have 1: "Add_out env a b out st = (Inl ShapeMismatch, st)" for out
    using Add_out_mismatch [OF assms(1,2) m] assms(3) by simp
  have 2: "Mul_out env a b out st = (Inl ShapeMismatch, st)" for out
    using Mul_out_mismatch [OF assms(1,2) m] assms(3) by simp
  have 3: "IAdd env a b st = (Inl ShapeMismatch, st)"
    using 1 [of a] by (simp add: IAdd_def bindM_def)
  have 4: "IMul env a b st = (Inl ShapeMismatch, st)"
    using 2 [of a] by (simp add: IMul_def bindM_def)
  show ?thesis
    using 1 2 3 4 Add_mismatch [OF assms(1,2) m, of env] Mul_mismatch [OF assms(1,2) m, of env] assms(3)
    by simp
qed

theorem shape_mismatch_fails_witness:
  "get_array ex_mm 0 = Some ex_m0 \<and> get_array ex_mm 1 = Some ex_m1 \<and>
   dtype ex_m0 = dtype ex_m1 \<and> shape ex_m0 \<noteq> shape ex_m1 \<and> device ex_mm = Cpu \<and>
   Add_out ex_env 0 1 0 ex_mm = (Inl ShapeMismatch, ex_mm) \<and>
   Mul_out ex_env 0 1 0 ex_mm = (Inl ShapeMismatch, ex_mm) \<and>
   IAdd ex_env 0 1 ex_mm = (Inl ShapeMismatch, ex_mm) \<and>
   IMul ex_env 0 1 ex_mm = (Inl ShapeMismatch, ex_mm) \<and>
   (\<exists>st2. Add ex_env 0 1 ex_mm = (Inl ShapeMismatch, st2) \<and> constructed ex_mm st2 \<and>
      take (Suc (length (bufs ex_mm))) (bufs st2) = bufs ex_mm @ [replicate (total_bytes ex_m0) 0] \<and>
      length (arrays st2) = Suc (length (arrays ex_mm)) \<and> length (bufs ex_mm) < length (bufs st2)) \<and>
   (\<exists>st2. Mul ex_env 0 1 ex_mm = (Inl ShapeMismatch, st2) \<and> constructed ex_mm st2 \<and>
      take (Suc (length (bufs ex_mm))) (bufs st2) = bufs ex_mm @ [replicate (total_bytes ex_m0) 0] \<and>
      length (arrays st2) = Suc (length (arrays ex_mm)) \<and> length (bufs ex_mm) < length (bufs st2))"
proof -
  have h: "get_array ex_mm 0 = Some ex_m0" "get_array ex_mm 1 = Some ex_m1"
    "dtype ex_m0 = dtype ex_m1" "shape ex_m0 \<noteq> shape ex_m1"
    by (simp_all add: ex_mm_def ex_m0_def ex_m1_def get_array_def)
  have d: "device ex_mm = Cpu" by (simp add: ex_mm_def)
  show ?thesis
    using shape_mismatch_fails [OF h, of ex_env 0] h d by auto
qed

text \<open>
  C4, as stated, fails: on an \<^verbatim>\<open>int32\<close> and a \<^verbatim>\<open>float32\<close> Array the out-of-place \<^verbatim>\<open>Add\<close>
  fails with \<open>DtypeMismatch\<close>, but it has created a graph node and allocated the
  output buffer before the check.
\<close>

theorem dtype_mismatch_creates_node:
  "get_array ex_dm 0 = Some ex_a \<and> get_array ex_dm 1 = Some ex_f \<and>
   dtype ex_a \<noteq> dtype ex_f \<and>
   fst (Add ex_env 0 1 ex_dm) = Inl DtypeMismatch \<and>
   anodes (snd (Add ex_env 0 1 ex_dm)) = anodes ex_dm @ [None] \<and>
   bufs (snd (Add ex_env 0 1 ex_dm)) = bufs ex_dm @ [replicate 8 0]"
  by code_simp

text \<open>
  C4, amended. For Arrays of different dtypes, the forms that write into an Array of
  the caller (\<^verbatim>\<open>Add(rhs, out)\<close>, \<^verbatim>\<open>Mul(rhs, out)\<close>, \<^verbatim>\<open>IAdd\<close>, \<^verbatim>\<open>IMul\<close>) fail with
  \<open>DtypeMismatch\<close> and leave the store as it was: no buffer is touched and no node or
  edge record is created. The out-of-place \<^verbatim>\<open>Add(rhs)\<close> and \<^verbatim>\<open>Mul(rhs)\<close> construct the
  output first and then fail: the store has gained the output's buffers, the first of
  which is the buffer of \<open>total_bytes\<close> zero bytes, and one leaf node, every buffer
  that existed is unchanged, the operands and every other existing \<^verbatim>\<open>Array\<close> and node
  are unchanged and no edge record is created; where the construction succeeds the
  failure is \<open>DtypeMismatch\<close>.
\<close>

theorem dtype_mismatch_fails:
  assumes "get_array st a = Some A" and "get_array st b = Some B"
    and "dtype A \<noteq> dtype B"
  shows "Add_out env a b out st = (Inl DtypeMismatch, st) \<and>
         Mul_out env a b out st = (Inl DtypeMismatch, st) \<and>
         IAdd env a b st = (Inl DtypeMismatch, st) \<and>
         IMul env a b st = (Inl DtypeMismatch, st) \<and>
         (\<exists>e st2. Add env a b st = (Inl e, st2) \<and> constructed st st2 \<and>
            take (Suc (length (bufs st))) (bufs st2) = bufs st @ [replicate (total_bytes A) 0] \<and>
            (device st = Cpu \<or> enable_cuda env \<and> cuda_malloc_ok env (total_bytes A) \<longrightarrow>
               e = DtypeMismatch \<and> length (arrays st2) = Suc (length (arrays st)) \<and>
               length (bufs st) < length (bufs st2))) \<and>
         (\<exists>e st2. Mul env a b st = (Inl e, st2) \<and> constructed st st2 \<and>
            take (Suc (length (bufs st))) (bufs st2) = bufs st @ [replicate (total_bytes A) 0] \<and>
            (device st = Cpu \<or> enable_cuda env \<and> cuda_malloc_ok env (total_bytes A) \<longrightarrow>
               e = DtypeMismatch \<and> length (arrays st2) = Suc (length (arrays st)) \<and>
               length (bufs st) < length (bufs st2)))"
proof -
  have m: "dtype A \<noteq> dtype B \<or> shape A \<noteq> shape B" using assms(3) by simp
  have 1: "Add_out env a b out st = (Inl DtypeMismatch, st)" for out
    using Add_out_mismatch [OF assms(1,2) m] assms(3) by simp
  have 2: "Mul_out env a b out st = (Inl DtypeMismatch, st)" for out
    using Mul_out_mismatch [OF assms(1,2) m] assms(3) by simp
  have 3: "IAdd env a b st = (Inl DtypeMismatch, st)"
    using 1 [of a] by (simp add: IAdd_def bindM_def)
  have 4: "IMul env a b st = (Inl DtypeMismatch, st)"
    using 2 [of a] by (simp add: IMul_def bindM_def)
  show ?thesis
    using 1 2 3 4 Add_mismatch [OF assms(1,2) m, of env] Mul_mismatch [OF assms(1,2) m, of env] assms(3)
    by simp
qed

theorem dtype_mismatch_fails_witness:
  "get_array ex_dm 0 = Some ex_a \<and> get_array ex_dm 1 = Some ex_f \<and>
   dtype ex_a \<noteq> dtype ex_f \<and> device ex_dm = Cpu \<and>
   Add_out ex_env 0 1 0 ex_dm = (Inl DtypeMismatch, ex_dm) \<and>
   Mul_out ex_env 0 1 0 ex_dm = (Inl DtypeMismatch, ex_dm) \<and>
   IAdd ex_env 0 1 ex_dm = (Inl DtypeMismatch, ex_dm) \<and>
   IMul ex_env 0 1 ex_dm = (Inl DtypeMismatch, ex_dm) \<and>
   (\<exists>st2. Add ex_env 0 1 ex_dm = (Inl DtypeMismatch, st2) \<and> constructed ex_dm st2 \<and>
      take (Suc (length (bufs ex_dm))) (bufs st2) = bufs ex_dm @ [replicate (total_bytes ex_a) 0] \<and>
      length (arrays st2) = Suc (length (arrays ex_dm)) \<and> length (bufs ex_dm) < length (bufs st2)) \<and>
   (\<exists>st2. Mul ex_env 0 1 ex_dm = (Inl DtypeMismatch, st2) \<and> constructed ex_dm st2 \<and>
      take (Suc (length (bufs ex_dm))) (bufs st2) = bufs ex_dm @ [replicate (total_bytes ex_a) 0] \<and>
      length (arrays st2) = Suc (length (arrays ex_dm)) \<and> length (bufs ex_dm) < length (bufs st2))"
proof -
  have h: "get_array ex_dm 0 = Some ex_a" "get_array ex_dm 1 = Some ex_f"
    "dtype ex_a \<noteq> dtype ex_f"
    by (simp_all add: ex_dm_def ex_a_def ex_f_def get_array_def)
  have d: "device ex_dm = Cpu" by (simp add: ex_dm_def)
  show ?thesis
    using dtype_mismatch_fails [OF h, of ex_env 0] h d by auto
qed


subsection \<open>The in-place forms\<close>

text \<open>
  Without the condition on how the operands lie to the output, the loop still returns
  and still overwrites the elements \<open>i\<close> to \<open>n - 1\<close> of the output and nothing else;
  what it writes there may then depend on what it has written before. An element type
  all of whose byte patterns are values cannot make a later read fail, and neither can
  a type of one byte whose stored values are valid, as an overwritten byte is then a
  whole element.
\<close>

lemma loop_returns:
  assumes len: "\<forall>x. length (store T x) = sizeof T"
    and rob: "(\<forall>bs. valid T bs) \<or> sizeof T = 1 \<and> (\<forall>x. valid T (store T x))"
  shows "fst l < length (bufs st) \<Longrightarrow> fst r < length (bufs st) \<Longrightarrow> fst o' < length (bufs st) \<Longrightarrow>
     snd l + n * sizeof T \<le> length (bufs st ! fst l) \<Longrightarrow>
     snd r + n * sizeof T \<le> length (bufs st ! fst r) \<Longrightarrow>
     snd o' + n * sizeof T \<le> length (bufs st ! fst o') \<Longrightarrow> i \<le> n \<Longrightarrow>
     (\<forall>k. i \<le> k \<and> k < n \<longrightarrow> valid T (slice (sizeof T) (bytes_at st l) k)) \<Longrightarrow>
     (\<forall>k. i \<le> k \<and> k < n \<longrightarrow> valid T (slice (sizeof T) (bytes_at st r) k)) \<Longrightarrow>
     \<exists>X. length X = (n - i) * sizeof T \<and>
       elementwise_loop T f l r o' i n st =
         (Inr (), st\<lparr>bufs := (bufs st)[fst o' := take (snd o' + i * sizeof T) (bufs st ! fst o')
             @ X @ drop (snd o' + n * sizeof T) (bufs st ! fst o')]\<rparr>)"
proof (induction "n - i" arbitrary: i st)
  case 0
  then have "i = n" by simp
  then have "elementwise_loop T f l r o' i n st =
         (Inr (), st\<lparr>bufs := (bufs st)[fst o' := take (snd o' + i * sizeof T) (bufs st ! fst o')
             @ [] @ drop (snd o' + n * sizeof T) (bufs st ! fst o')]\<rparr>)"
    by simp
  with \<open>i = n\<close> show ?case by (intro exI [of _ "[]"]) simp
next
  case (Suc d)
  let ?w = "sizeof T"
  let ?Bo = "bufs st ! fst o'"
  let ?p = "snd o' + i * ?w"
  let ?x = "elem T (bytes_at st l) i"
  let ?y = "elem T (bytes_at st r) i"
  define bs where "bs = store T (f ?x ?y)"
  define B1 where "B1 = take ?p ?Bo @ bs @ drop (?p + ?w) ?Bo"
  define st1 where "st1 = st\<lparr>bufs := (bufs st)[fst o' := B1]\<rparr>"
  from Suc have lt: "i < n" by simp
  then have "Suc i * ?w \<le> n * ?w" by (intro mult_le_mono1) simp
  then have b: "i * ?w + ?w \<le> n * ?w" by simp
  have bl: "snd l + i * ?w + ?w \<le> length (bufs st ! fst l)"
    and br: "snd r + i * ?w + ?w \<le> length (bufs st ! fst r)"
    and bo: "?p + ?w \<le> length ?Bo"
    using b Suc.prems(4-6) by simp_all
  have lbs: "length bs = ?w" using len by (simp add: bs_def)
  have bo': "?p + length bs \<le> length ?Bo" using bo lbs by simp
  have vl: "valid T (slice ?w (bytes_at st l) i)" and vr: "valid T (slice ?w (bytes_at st r) i)"
    using Suc.prems(8,9) lt by simp_all
  have rd: "read_elem T st l i = Some ?x" "read_elem T st r i = Some ?y"
    using Suc.prems(1,2) bl br vl vr
    by (simp_all add: read_elem_def get_buf_def elem_def slice_bytes_at)
  have wr: "write_elem T st o' i (f ?x ?y) = Some st1"
    using Suc.prems(3) bo by (simp add: write_elem_def get_buf_def st1_def B1_def bs_def)
  have step: "elementwise_loop T f l r o' i n st = elementwise_loop T f l r o' (Suc i) n st1"
    using lt rd wr by (subst elementwise_loop.simps) simp
  have lenB1: "length B1 = length ?Bo" using bo lbs by (simp add: B1_def)
  have o1: "bufs st1 ! fst o' = B1" using Suc.prems(3) by (simp add: st1_def)
  have other: "\<And>b. b \<noteq> fst o' \<Longrightarrow> bufs st1 ! b = bufs st ! b" by (simp add: st1_def)
  have len1: "length (bufs st1) = length (bufs st)" by (simp add: st1_def)
  have lenb: "\<And>b. length (bufs st1 ! b) = length (bufs st ! b)"
    using o1 other lenB1 by metis
  have va: "valid T (slice ?w (bytes_at st1 s) k)"
    if v: "valid T (slice ?w (bytes_at st s) k)" for s k
  proof (cases "\<forall>bs. valid T bs")
    case True
    then show ?thesis by simp
  next
    case False
    with rob have w1: "?w = 1" and vs: "\<And>x. valid T (store T x)" by simp_all
    show ?thesis
    proof (cases "fst s = fst o'")
      case False
      with v other show ?thesis by (simp add: slice_bytes_at)
    next
      case same: True
      show ?thesis
      proof (cases "snd s + k * ?w = ?p")
        case False
        then have "snd s + k * ?w + ?w \<le> ?p \<or> ?p + length bs \<le> snd s + k * ?w"
          using w1 lbs by auto
        from window_patch [OF bo' this] v show ?thesis
          using same o1 by (simp add: slice_bytes_at B1_def lbs)
      next
        case True
        have lp: "length (take ?p ?Bo) = ?p" using bo by simp
        have "drop ?p B1 = bs @ drop (?p + ?w) ?Bo"
          unfolding B1_def using lp by (metis append_eq_conv_conj)
        then have "take ?w (drop ?p B1) = bs" using lbs by simp
        with True same o1 vs show ?thesis by (simp add: slice_bytes_at bs_def)
      qed
    qed
  qed
  have tk: "take (snd o' + Suc i * ?w) B1 = take ?p ?Bo @ bs"
    unfolding B1_def using take_patch [of ?p bs ?Bo] bo lbs by (simp add: add.commute add.left_commute)
  have dr: "drop (snd o' + n * ?w) B1 = drop (snd o' + n * ?w) ?Bo"
    unfolding B1_def using drop_patch [of ?p bs ?Bo "snd o' + n * ?w"] bo lbs b by simp
  have pre: "fst l < length (bufs st1)" "fst r < length (bufs st1)" "fst o' < length (bufs st1)"
    "snd l + n * ?w \<le> length (bufs st1 ! fst l)" "snd r + n * ?w \<le> length (bufs st1 ! fst r)"
    "snd o' + n * ?w \<le> length (bufs st1 ! fst o')"
    using Suc.prems(1-6) by (simp_all only: len1 lenb)
  have v1: "\<forall>k. Suc i \<le> k \<and> k < n \<longrightarrow> valid T (slice ?w (bytes_at st1 l) k)"
    "\<forall>k. Suc i \<le> k \<and> k < n \<longrightarrow> valid T (slice ?w (bytes_at st1 r) k)"
    using va Suc.prems(8,9) by simp_all
  have d: "d = n - Suc i" using Suc.hyps(2) by simp
  have si: "Suc i \<le> n" using lt by simp
  from Suc.hyps(1) [OF d pre si v1] obtain X where
    lX: "length X = (n - Suc i) * ?w"
    and ih: "elementwise_loop T f l r o' (Suc i) n st1 =
       (Inr (), st1\<lparr>bufs := (bufs st1)[fst o' := take (snd o' + Suc i * ?w) (bufs st1 ! fst o')
           @ X @ drop (snd o' + n * ?w) (bufs st1 ! fst o')]\<rparr>)"
    by blast
  have "length (bs @ X) = (n - i) * ?w"
    using lX lbs lt by (simp add: Suc_diff_Suc [symmetric] del: Suc_diff_Suc)
  moreover have "elementwise_loop T f l r o' i n st =
       (Inr (), st\<lparr>bufs := (bufs st)[fst o' := take ?p ?Bo @ (bs @ X)
           @ drop (snd o' + n * ?w) ?Bo]\<rparr>)"
    unfolding step ih o1 tk dr by (simp add: st1_def)
  ultimately show ?case by blast
qed

lemma value_types:
  "(\<forall>bs. valid T_bool bs) \<or> sizeof T_bool = 1 \<and> (\<forall>x. valid T_bool (store T_bool x))"
  "(\<forall>bs. valid T_int8_t bs) \<or> sizeof T_int8_t = 1 \<and> (\<forall>x. valid T_int8_t (store T_int8_t x))"
  "(\<forall>bs. valid T_int16_t bs) \<or> sizeof T_int16_t = 1 \<and> (\<forall>x. valid T_int16_t (store T_int16_t x))"
  "(\<forall>bs. valid T_int32_t bs) \<or> sizeof T_int32_t = 1 \<and> (\<forall>x. valid T_int32_t (store T_int32_t x))"
  "(\<forall>bs. valid T_int64_t bs) \<or> sizeof T_int64_t = 1 \<and> (\<forall>x. valid T_int64_t (store T_int64_t x))"
  "(\<forall>bs. valid T_uint8_t bs) \<or> sizeof T_uint8_t = 1 \<and> (\<forall>x. valid T_uint8_t (store T_uint8_t x))"
  "(\<forall>bs. valid (T_float env) bs) \<or>
     sizeof (T_float env) = 1 \<and> (\<forall>x. valid (T_float env) (store (T_float env) x))"
  "(\<forall>bs. valid (T_double env) bs) \<or>
     sizeof (T_double env) = 1 \<and> (\<forall>x. valid (T_double env) (store (T_double env) x))"
  by (simp_all add: T_bool_def T_int8_t_def T_int16_t_def T_int32_t_def T_int64_t_def
      T_uint8_t_def T_float_def T_double_def)

lemma Add_T_returns:
  assumes len: "\<forall>x. length (store T x) = sizeof T"
    and rob: "(\<forall>bs. valid T bs) \<or> sizeof T = 1 \<and> (\<forall>x. valid T (store T x))"
    and l: "get_array st this = Some lhs" and r: "get_array st rhs = Some r"
    and ou: "get_array st out = Some ou"
    and "in_buffer st (data lhs) (total_size (shape lhs) * sizeof T)"
    and "in_buffer st (data r) (total_size (shape lhs) * sizeof T)"
    and "in_buffer st (data ou) (total_size (shape lhs) * sizeof T)"
    and "all_valid T (bytes_at st (data lhs)) (total_size (shape lhs))"
    and "all_valid T (bytes_at st (data r)) (total_size (shape lhs))"
  shows "\<exists>X. length X = total_size (shape lhs) * sizeof T \<and>
           Add_T T this rhs out st = (Inr (), st\<lparr>bufs := (bufs st)[fst (data ou) :=
              take (snd (data ou)) (bufs st ! fst (data ou)) @ X
              @ drop (snd (data ou) + total_size (shape lhs) * sizeof T) (bufs st ! fst (data ou))],
            arrays := (arrays st)[out := ou\<lparr>node := length (anodes st)\<rparr>],
            anodes := anodes st @ [Some (length (onodes st))],
            onodes := onodes st @ [\<lparr>name = ''add'', next_nodes = [node lhs, node r]\<rparr>]\<rparr>)"
proof -
  let ?n = "total_size (shape lhs)"
  have v: "\<forall>k. 0 \<le> k \<and> k < ?n \<longrightarrow> valid T (slice (sizeof T) (bytes_at st (data lhs)) k)"
    "\<forall>k. 0 \<le> k \<and> k < ?n \<longrightarrow> valid T (slice (sizeof T) (bytes_at st (data r)) k)"
    using assms(9,10) by (simp_all add: all_valid_def)
  from loop_returns [OF len rob, where i = 0 and f = "c_add T" and l = "data lhs" and r = "data r"
        and o' = "data ou" and n = ?n and st = st] assms(6-8) v
  obtain X where lX: "length X = ?n * sizeof T"
    and lp: "elementwise_loop T (c_add T) (data lhs) (data r) (data ou) 0 ?n st
      = (Inr (), st\<lparr>bufs := (bufs st)[fst (data ou) :=
              take (snd (data ou)) (bufs st ! fst (data ou)) @ X
              @ drop (snd (data ou) + ?n * sizeof T) (bufs st ! fst (data ou))]\<rparr>)"
    by (auto simp: in_buffer_def)
  let ?B = "(bufs st)[fst (data ou) :=
              take (snd (data ou)) (bufs st ! fst (data ou)) @ X
              @ drop (snd (data ou) + ?n * sizeof T) (bufs st ! fst (data ou))]"
  have lB: "length ?B = length (bufs st)" by simp
  have "Add_T T this rhs out st = (Inr (), st\<lparr>bufs := ?B,
            arrays := (arrays st)[out := ou\<lparr>node := length (anodes st)\<rparr>],
            anodes := anodes st @ [Some (length (onodes st))],
            onodes := onodes st @ [\<lparr>name = ''add'', next_nodes = [node lhs, node r]\<rparr>]\<rparr>)"
    using l r ou lp graph_step [OF ou lB]
    by (simp add: Add_T_def bindM_def [of "elementwise_loop T (c_add T) (data lhs) (data r)
          (data ou) 0 (total_size (shape lhs))"])
  with lX show ?thesis by blast
qed

text \<open>
  The in-place form on operands of one dtype and shape that hold values of the dtype,
  with the three ranges inside their buffers, returns and overwrites the \<open>total_size\<close>
  elements at the data pointer of \<open>out\<close> and nothing else, however the operands lie to
  the output.
\<close>

lemma Add_out_returns:
  assumes l: "get_array st this = Some lhs" and r: "get_array st rhs = Some r"
    and ou: "get_array st out = Some ou"
    and dt: "dtype lhs = dtype r" and sh: "shape lhs = shape r"
    and "in_buffer st (data lhs) (total_size (shape lhs) * GetElementSize (dtype lhs))"
    and "in_buffer st (data r) (total_size (shape lhs) * GetElementSize (dtype lhs))"
    and "in_buffer st (data ou) (total_size (shape lhs) * GetElementSize (dtype lhs))"
    and "holds_values env (dtype lhs) (bytes_at st (data lhs)) (total_size (shape lhs))"
    and "holds_values env (dtype lhs) (bytes_at st (data r)) (total_size (shape lhs))"
  shows "\<exists>X. length X = total_size (shape lhs) * GetElementSize (dtype lhs) \<and>
           Add_out env this rhs out st = (Inr (), st\<lparr>bufs := (bufs st)[fst (data ou) :=
              take (snd (data ou)) (bufs st ! fst (data ou)) @ X
              @ drop (snd (data ou) + total_size (shape lhs) * GetElementSize (dtype lhs))
                  (bufs st ! fst (data ou))],
            arrays := (arrays st)[out := ou\<lparr>node := length (anodes st)\<rparr>],
            anodes := anodes st @ [Some (length (onodes st))],
            onodes := onodes st @ [\<lparr>name = ''add'', next_nodes = [node lhs, node r]\<rparr>]\<rparr>)"
proof (cases "dtype lhs")
  case kBool
  then show ?thesis
    using assms(6-10) Add_T_returns [OF store_lengths(1) value_types(1) l r ou]
    unfolding Add_out_dispatch [OF l r dt sh] by (simp add: holds_values_def sizeof_simps)
next
  case kInt8
  then show ?thesis
    using assms(6-10) Add_T_returns [OF store_lengths(2) value_types(2) l r ou]
    unfolding Add_out_dispatch [OF l r dt sh] by (simp add: holds_values_def sizeof_simps)
next
  case kInt16
  then show ?thesis
    using assms(6-10) Add_T_returns [OF store_lengths(3) value_types(3) l r ou]
    unfolding Add_out_dispatch [OF l r dt sh] by (simp add: holds_values_def sizeof_simps)
next
  case kInt32
  then show ?thesis
    using assms(6-10) Add_T_returns [OF store_lengths(4) value_types(4) l r ou]
    unfolding Add_out_dispatch [OF l r dt sh] by (simp add: holds_values_def sizeof_simps)
next
  case kInt64
  then show ?thesis
    using assms(6-10) Add_T_returns [OF store_lengths(5) value_types(5) l r ou]
    unfolding Add_out_dispatch [OF l r dt sh] by (simp add: holds_values_def sizeof_simps)
next
  case kUInt8
  then show ?thesis
    using assms(6-10) Add_T_returns [OF store_lengths(6) value_types(6) l r ou]
    unfolding Add_out_dispatch [OF l r dt sh] by (simp add: holds_values_def sizeof_simps)
next
  case kFloat32
  then show ?thesis
    using assms(6-10) Add_T_returns [OF store_lengths(7) value_types(7) l r ou, of env]
    unfolding Add_out_dispatch [OF l r dt sh] by (simp add: holds_values_def sizeof_simps)
next
  case kFloat64
  then show ?thesis
    using assms(6-10) Add_T_returns [OF store_lengths(8) value_types(8) l r ou, of env]
    unfolding Add_out_dispatch [OF l r dt sh] by (simp add: holds_values_def sizeof_simps)
qed

lemma Mul_T_returns:
  assumes len: "\<forall>x. length (store T x) = sizeof T"
    and rob: "(\<forall>bs. valid T bs) \<or> sizeof T = 1 \<and> (\<forall>x. valid T (store T x))"
    and l: "get_array st this = Some lhs" and r: "get_array st rhs = Some r"
    and ou: "get_array st out = Some ou"
    and "in_buffer st (data lhs) (total_size (shape lhs) * sizeof T)"
    and "in_buffer st (data r) (total_size (shape lhs) * sizeof T)"
    and "in_buffer st (data ou) (total_size (shape lhs) * sizeof T)"
    and "all_valid T (bytes_at st (data lhs)) (total_size (shape lhs))"
    and "all_valid T (bytes_at st (data r)) (total_size (shape lhs))"
  shows "\<exists>X. length X = total_size (shape lhs) * sizeof T \<and>
           Mul_T T this rhs out st = (Inr (), st\<lparr>bufs := (bufs st)[fst (data ou) :=
              take (snd (data ou)) (bufs st ! fst (data ou)) @ X
              @ drop (snd (data ou) + total_size (shape lhs) * sizeof T) (bufs st ! fst (data ou))],
            arrays := (arrays st)[out := ou\<lparr>node := length (anodes st)\<rparr>],
            anodes := anodes st @ [Some (length (onodes st))],
            onodes := onodes st @ [\<lparr>name = ''mul'', next_nodes = [node lhs, node r]\<rparr>]\<rparr>)"
proof -
  let ?n = "total_size (shape lhs)"
  have v: "\<forall>k. 0 \<le> k \<and> k < ?n \<longrightarrow> valid T (slice (sizeof T) (bytes_at st (data lhs)) k)"
    "\<forall>k. 0 \<le> k \<and> k < ?n \<longrightarrow> valid T (slice (sizeof T) (bytes_at st (data r)) k)"
    using assms(9,10) by (simp_all add: all_valid_def)
  from loop_returns [OF len rob, where i = 0 and f = "c_mul T" and l = "data lhs" and r = "data r"
        and o' = "data ou" and n = ?n and st = st] assms(6-8) v
  obtain X where lX: "length X = ?n * sizeof T"
    and lp: "elementwise_loop T (c_mul T) (data lhs) (data r) (data ou) 0 ?n st
      = (Inr (), st\<lparr>bufs := (bufs st)[fst (data ou) :=
              take (snd (data ou)) (bufs st ! fst (data ou)) @ X
              @ drop (snd (data ou) + ?n * sizeof T) (bufs st ! fst (data ou))]\<rparr>)"
    by (auto simp: in_buffer_def)
  let ?B = "(bufs st)[fst (data ou) :=
              take (snd (data ou)) (bufs st ! fst (data ou)) @ X
              @ drop (snd (data ou) + ?n * sizeof T) (bufs st ! fst (data ou))]"
  have lB: "length ?B = length (bufs st)" by simp
  have "Mul_T T this rhs out st = (Inr (), st\<lparr>bufs := ?B,
            arrays := (arrays st)[out := ou\<lparr>node := length (anodes st)\<rparr>],
            anodes := anodes st @ [Some (length (onodes st))],
            onodes := onodes st @ [\<lparr>name = ''mul'', next_nodes = [node lhs, node r]\<rparr>]\<rparr>)"
    using l r ou lp graph_step [OF ou lB]
    by (simp add: Mul_T_def bindM_def [of "elementwise_loop T (c_mul T) (data lhs) (data r)
          (data ou) 0 (total_size (shape lhs))"])
  with lX show ?thesis by blast
qed

text \<open>
  The in-place form on operands of one dtype and shape that hold values of the dtype,
  with the three ranges inside their buffers, returns and overwrites the \<open>total_size\<close>
  elements at the data pointer of \<open>out\<close> and nothing else, however the operands lie to
  the output.
\<close>

lemma Mul_out_returns:
  assumes l: "get_array st this = Some lhs" and r: "get_array st rhs = Some r"
    and ou: "get_array st out = Some ou"
    and dt: "dtype lhs = dtype r" and sh: "shape lhs = shape r"
    and "in_buffer st (data lhs) (total_size (shape lhs) * GetElementSize (dtype lhs))"
    and "in_buffer st (data r) (total_size (shape lhs) * GetElementSize (dtype lhs))"
    and "in_buffer st (data ou) (total_size (shape lhs) * GetElementSize (dtype lhs))"
    and "holds_values env (dtype lhs) (bytes_at st (data lhs)) (total_size (shape lhs))"
    and "holds_values env (dtype lhs) (bytes_at st (data r)) (total_size (shape lhs))"
  shows "\<exists>X. length X = total_size (shape lhs) * GetElementSize (dtype lhs) \<and>
           Mul_out env this rhs out st = (Inr (), st\<lparr>bufs := (bufs st)[fst (data ou) :=
              take (snd (data ou)) (bufs st ! fst (data ou)) @ X
              @ drop (snd (data ou) + total_size (shape lhs) * GetElementSize (dtype lhs))
                  (bufs st ! fst (data ou))],
            arrays := (arrays st)[out := ou\<lparr>node := length (anodes st)\<rparr>],
            anodes := anodes st @ [Some (length (onodes st))],
            onodes := onodes st @ [\<lparr>name = ''mul'', next_nodes = [node lhs, node r]\<rparr>]\<rparr>)"
proof (cases "dtype lhs")
  case kBool
  then show ?thesis
    using assms(6-10) Mul_T_returns [OF store_lengths(1) value_types(1) l r ou]
    unfolding Mul_out_dispatch [OF l r dt sh] by (simp add: holds_values_def sizeof_simps)
next
  case kInt8
  then show ?thesis
    using assms(6-10) Mul_T_returns [OF store_lengths(2) value_types(2) l r ou]
    unfolding Mul_out_dispatch [OF l r dt sh] by (simp add: holds_values_def sizeof_simps)
next
  case kInt16
  then show ?thesis
    using assms(6-10) Mul_T_returns [OF store_lengths(3) value_types(3) l r ou]
    unfolding Mul_out_dispatch [OF l r dt sh] by (simp add: holds_values_def sizeof_simps)
next
  case kInt32
  then show ?thesis
    using assms(6-10) Mul_T_returns [OF store_lengths(4) value_types(4) l r ou]
    unfolding Mul_out_dispatch [OF l r dt sh] by (simp add: holds_values_def sizeof_simps)
next
  case kInt64
  then show ?thesis
    using assms(6-10) Mul_T_returns [OF store_lengths(5) value_types(5) l r ou]
    unfolding Mul_out_dispatch [OF l r dt sh] by (simp add: holds_values_def sizeof_simps)
next
  case kUInt8
  then show ?thesis
    using assms(6-10) Mul_T_returns [OF store_lengths(6) value_types(6) l r ou]
    unfolding Mul_out_dispatch [OF l r dt sh] by (simp add: holds_values_def sizeof_simps)
next
  case kFloat32
  then show ?thesis
    using assms(6-10) Mul_T_returns [OF store_lengths(7) value_types(7) l r ou, of env]
    unfolding Mul_out_dispatch [OF l r dt sh] by (simp add: holds_values_def sizeof_simps)
next
  case kFloat64
  then show ?thesis
    using assms(6-10) Mul_T_returns [OF store_lengths(8) value_types(8) l r ou, of env]
    unfolding Mul_out_dispatch [OF l r dt sh] by (simp add: holds_values_def sizeof_simps)
qed

lemma loop_fault: "fst (elementwise_loop T f l r o' i n st) = Inl e \<Longrightarrow> e = MemoryFault"
proof (induction T f l r o' i n st rule: elementwise_loop.induct)
  case (1 T f l r o' i n st)
  show ?case
  proof (cases "i < n")
    case False
    with "1.prems" show ?thesis by simp
  next
    case True
    show ?thesis
    proof (cases "read_elem T st l i")
      case None
      with True "1.prems" show ?thesis by simp
    next
      case (Some x)
      show ?thesis
      proof (cases "read_elem T st r i")
        case None
        with True Some "1.prems" show ?thesis by simp
      next
        case y: (Some y)
        show ?thesis
        proof (cases "write_elem T st o' i (f x y)")
          case None
          with True Some y "1.prems" show ?thesis by simp
        next
          case st1: (Some st1)
          with True Some y "1.prems" have "fst (elementwise_loop T f l r o' (Suc i) n st1) = Inl e"
            by simp
          with "1.IH" [OF True refl Some y st1] show ?thesis by simp
        qed
      qed
    qed
  qed
qed

lemma Add_T_fault: "fst (Add_T T this rhs out st) = Inl e \<Longrightarrow> e = MemoryFault"
proof (cases "get_array st this")
  case None
  assume "fst (Add_T T this rhs out st) = Inl e"
  with None show ?thesis by (simp add: Add_T_def)
next
  case l: (Some lhs)
  assume e: "fst (Add_T T this rhs out st) = Inl e"
  show ?thesis
  proof (cases "get_array st rhs")
    case None
    with e l show ?thesis by (simp add: Add_T_def)
  next
    case r: (Some r)
    show ?thesis
    proof (cases "get_array st out")
      case None
      with e l r show ?thesis by (simp add: Add_T_def)
    next
      case ou: (Some ou)
      obtain res1 B where lp: "elementwise_loop T (c_add T) (data lhs) (data r) (data ou) 0
            (total_size (shape lhs)) st = (res1, st\<lparr>bufs := B\<rparr>)"
        and lB: "length B = length (bufs st)" by (rule loop_result)
      show ?thesis
      proof (cases res1)
        case (Inl e1)
        with lp have "e1 = MemoryFault" using loop_fault [of T "c_add T" "data lhs" "data r" "data ou" 0
            "total_size (shape lhs)" st e1] by simp
        with e l r ou lp Inl show ?thesis
          by (simp add: Add_T_def bindM_def [of "elementwise_loop T (c_add T) (data lhs) (data r)
                (data ou) 0 (total_size (shape lhs))"])
      next
        case (Inr u)
        with e l r ou lp graph_step [OF ou lB] show ?thesis
          by (simp add: Add_T_def bindM_def [of "elementwise_loop T (c_add T) (data lhs) (data r)
                (data ou) 0 (total_size (shape lhs))"])
      qed
    qed
  qed
qed

lemma Mul_T_fault: "fst (Mul_T T this rhs out st) = Inl e \<Longrightarrow> e = MemoryFault"
proof (cases "get_array st this")
  case None
  assume "fst (Mul_T T this rhs out st) = Inl e"
  with None show ?thesis by (simp add: Mul_T_def)
next
  case l: (Some lhs)
  assume e: "fst (Mul_T T this rhs out st) = Inl e"
  show ?thesis
  proof (cases "get_array st rhs")
    case None
    with e l show ?thesis by (simp add: Mul_T_def)
  next
    case r: (Some r)
    show ?thesis
    proof (cases "get_array st out")
      case None
      with e l r show ?thesis by (simp add: Mul_T_def)
    next
      case ou: (Some ou)
      obtain res1 B where lp: "elementwise_loop T (c_mul T) (data lhs) (data r) (data ou) 0
            (total_size (shape lhs)) st = (res1, st\<lparr>bufs := B\<rparr>)"
        and lB: "length B = length (bufs st)" by (rule loop_result)
      show ?thesis
      proof (cases res1)
        case (Inl e1)
        with lp have "e1 = MemoryFault" using loop_fault [of T "c_mul T" "data lhs" "data r" "data ou" 0
            "total_size (shape lhs)" st e1] by simp
        with e l r ou lp Inl show ?thesis
          by (simp add: Mul_T_def bindM_def [of "elementwise_loop T (c_mul T) (data lhs) (data r)
                (data ou) 0 (total_size (shape lhs))"])
      next
        case (Inr u)
        with e l r ou lp graph_step [OF ou lB] show ?thesis
          by (simp add: Mul_T_def bindM_def [of "elementwise_loop T (c_mul T) (data lhs) (data r)
                (data ou) 0 (total_size (shape lhs))"])
      qed
    qed
  qed
qed

lemma Add_out_raises:
  assumes l: "get_array st this = Some lhs" and r: "get_array st rhs = Some r"
  shows "raises (fst (Add_out env this rhs out st)) \<longleftrightarrow> dtype lhs \<noteq> dtype r \<or> shape lhs \<noteq> shape r"
proof (cases "dtype lhs \<noteq> dtype r \<or> shape lhs \<noteq> shape r")
  case True
  with Add_out_mismatch [OF l r True, of env out] show ?thesis by (simp add: raises_def)
next
  case False
  then have dt: "dtype lhs = dtype r" and sh: "shape lhs = shape r" by simp_all
  have "\<not> raises (fst (Add_out env this rhs out st))"
    unfolding Add_out_dispatch [OF l r dt sh] raises_def
    by (cases "dtype lhs") (auto dest: Add_T_fault)
  with False show ?thesis by simp
qed

lemma Mul_out_raises:
  assumes l: "get_array st this = Some lhs" and r: "get_array st rhs = Some r"
  shows "raises (fst (Mul_out env this rhs out st)) \<longleftrightarrow> dtype lhs \<noteq> dtype r \<or> shape lhs \<noteq> shape r"
proof (cases "dtype lhs \<noteq> dtype r \<or> shape lhs \<noteq> shape r")
  case True
  with Mul_out_mismatch [OF l r True, of env out] show ?thesis by (simp add: raises_def)
next
  case False
  then have dt: "dtype lhs = dtype r" and sh: "shape lhs = shape r" by simp_all
  have "\<not> raises (fst (Mul_out env this rhs out st))"
    unfolding Mul_out_dispatch [OF l r dt sh] raises_def
    by (cases "dtype lhs") (auto dest: Mul_T_fault)
  with False show ?thesis by simp
qed

text \<open>A list of buffers after the bytes \<open>X\<close> have been written at a pointer \<open>p\<close>.\<close>

lemma patched_buffers:
  assumes "fst p < length Bs" "snd p + length X \<le> length (Bs ! fst p)"
  shows "length (Bs[fst p := take (snd p) (Bs ! fst p) @ X @ drop (snd p + length X) (Bs ! fst p)])
           = length Bs"
    and "\<forall>q < length Bs. q \<noteq> fst p \<longrightarrow>
           Bs[fst p := take (snd p) (Bs ! fst p) @ X @ drop (snd p + length X) (Bs ! fst p)] ! q = Bs ! q"
    and "take (snd p)
           (Bs[fst p := take (snd p) (Bs ! fst p) @ X @ drop (snd p + length X) (Bs ! fst p)] ! fst p)
           = take (snd p) (Bs ! fst p)"
    and "drop (snd p + length X)
           (Bs[fst p := take (snd p) (Bs ! fst p) @ X @ drop (snd p + length X) (Bs ! fst p)] ! fst p)
           = drop (snd p + length X) (Bs ! fst p)"
    and "drop (snd p)
           (Bs[fst p := take (snd p) (Bs ! fst p) @ X @ drop (snd p + length X) (Bs ! fst p)] ! fst p)
           = X @ drop (snd p + length X) (Bs ! fst p)"
    and "fst s \<noteq> fst p \<or> snd s + w \<le> snd p \<or> snd p + length X \<le> snd s \<Longrightarrow>
         take w (drop (snd s)
           (Bs[fst p := take (snd p) (Bs ! fst p) @ X @ drop (snd p + length X) (Bs ! fst p)] ! fst s))
           = take w (drop (snd s) (Bs ! fst s))"
proof -
  let ?B = "Bs ! fst p"
  let ?B' = "take (snd p) ?B @ X @ drop (snd p + length X) ?B"
  have n: "Bs[fst p := ?B'] ! fst p = ?B'" using assms(1) by simp
  have lp: "length (take (snd p) ?B) = snd p" using assms(2) by simp
  show "length (Bs[fst p := ?B']) = length Bs" by simp
  show "\<forall>q < length Bs. q \<noteq> fst p \<longrightarrow> Bs[fst p := ?B'] ! q = Bs ! q" by simp
  show "take (snd p) (Bs[fst p := ?B'] ! fst p) = take (snd p) ?B"
    unfolding n using lp by simp
  show "drop (snd p + length X) (Bs[fst p := ?B'] ! fst p) = drop (snd p + length X) ?B"
    unfolding n using drop_patch [OF assms(2), of "snd p + length X"] by simp
  show "drop (snd p) (Bs[fst p := ?B'] ! fst p) = X @ drop (snd p + length X) ?B"
    unfolding n using lp by (metis append_eq_conv_conj)
  show "take w (drop (snd s) (Bs[fst p := ?B'] ! fst s)) = take w (drop (snd s) (Bs ! fst s))"
    if "fst s \<noteq> fst p \<or> snd s + w \<le> snd p \<or> snd p + length X \<le> snd s"
  proof (cases "fst s = fst p")
    case False
    then show ?thesis by simp
  next
    case True
    with that have "snd s + w \<le> snd p \<or> snd p + length X \<le> snd s" by simp
    from window_patch [OF assms(2) this] True n show ?thesis by simp
  qed
qed

lemma IAdd_ok:
  assumes ga: "get_array st a = Some A" and gb: "get_array st b = Some B"
    and sh: "shape A = shape B" and dt: "dtype A = dtype B"
    and wa: "wf_array st A" and wb: "wf_array st B"
    and ha: "holds_values env (dtype A) (bytes_at st (data A)) (total_size (shape A))"
    and hb: "holds_values env (dtype A) (bytes_at st (data B)) (total_size (shape A))"
    and re: "reads_entry_values (data B) (data A) (total_bytes A)"
  shows "IAdd env a b st = (Inr a, st\<lparr>bufs := (bufs st)[fst (data A) :=
              take (snd (data A)) (bufs st ! fst (data A))
              @ add_bytes env (dtype A) (bytes_at st (data A)) (bytes_at st (data B))
                  (total_size (shape A))
              @ drop (snd (data A) + total_bytes A) (bufs st ! fst (data A))],
            arrays := (arrays st)[a := A\<lparr>node := length (anodes st)\<rparr>],
            anodes := anodes st @ [Some (length (onodes st))],
            onodes := onodes st @ [\<lparr>name = ''add'', next_nodes = [node A, node B]\<rparr>]\<rparr>)"
proof -
  have ib: "in_buffer st (data A) (total_size (shape A) * GetElementSize (dtype A))"
    "in_buffer st (data B) (total_size (shape A) * GetElementSize (dtype A))"
    using wa wb sh dt by (simp_all add: wf_array_def total_bytes_def)
  have rs: "reads_entry_values (data A) (data A) (total_size (shape A) * GetElementSize (dtype A))"
    "reads_entry_values (data B) (data A) (total_size (shape A) * GetElementSize (dtype A))"
    using re by (simp_all add: reads_entry_values_def total_bytes_def)
  show ?thesis
    using Add_out_ok [OF ga gb ga dt sh ib(1,2,1) rs ha hb]
    by (simp add: IAdd_def bindM_def total_bytes_def)
qed

lemma IMul_ok:
  assumes ga: "get_array st a = Some A" and gb: "get_array st b = Some B"
    and sh: "shape A = shape B" and dt: "dtype A = dtype B"
    and wa: "wf_array st A" and wb: "wf_array st B"
    and ha: "holds_values env (dtype A) (bytes_at st (data A)) (total_size (shape A))"
    and hb: "holds_values env (dtype A) (bytes_at st (data B)) (total_size (shape A))"
    and re: "reads_entry_values (data B) (data A) (total_bytes A)"
  shows "IMul env a b st = (Inr a, st\<lparr>bufs := (bufs st)[fst (data A) :=
              take (snd (data A)) (bufs st ! fst (data A))
              @ mul_bytes env (dtype A) (bytes_at st (data A)) (bytes_at st (data B))
                  (total_size (shape A))
              @ drop (snd (data A) + total_bytes A) (bufs st ! fst (data A))],
            arrays := (arrays st)[a := A\<lparr>node := length (anodes st)\<rparr>],
            anodes := anodes st @ [Some (length (onodes st))],
            onodes := onodes st @ [\<lparr>name = ''mul'', next_nodes = [node A, node B]\<rparr>]\<rparr>)"
proof -
  have ib: "in_buffer st (data A) (total_size (shape A) * GetElementSize (dtype A))"
    "in_buffer st (data B) (total_size (shape A) * GetElementSize (dtype A))"
    using wa wb sh dt by (simp_all add: wf_array_def total_bytes_def)
  have rs: "reads_entry_values (data A) (data A) (total_size (shape A) * GetElementSize (dtype A))"
    "reads_entry_values (data B) (data A) (total_size (shape A) * GetElementSize (dtype A))"
    using re by (simp_all add: reads_entry_values_def total_bytes_def)
  show ?thesis
    using Mul_out_ok [OF ga gb ga dt sh ib(1,2,1) rs ha hb]
    by (simp add: IMul_def bindM_def total_bytes_def)
qed

text \<open>
  What the store is after bytes \<open>X\<close> of the size of \<open>A\<close> have been written at the data
  pointer of the Array \<open>a\<close> and the node of \<open>a\<close> has been replaced.
\<close>

lemma in_place_frame:
  assumes ga: "get_array st a = Some A" and gb: "get_array st b = Some B"
    and wa: "wf_array st A" and lX: "length X = total_bytes A"
    and st': "st' = st\<lparr>bufs := (bufs st)[fst (data A) :=
              take (snd (data A)) (bufs st ! fst (data A)) @ X
              @ drop (snd (data A) + total_bytes A) (bufs st ! fst (data A))],
            arrays := (arrays st)[a := A\<lparr>node := length (anodes st)\<rparr>],
            anodes := anodes st @ [Some (length (onodes st))],
            onodes := onodes st @ [\<lparr>name = nm, next_nodes = [node A, node B]\<rparr>]\<rparr>"
  shows "get_array st' a = Some (A\<lparr>node := length (anodes st)\<rparr>)"
    and "bytes_at st' (data A) = X @ drop (snd (data A) + total_bytes A) (bufs st ! fst (data A))"
    and "length (bufs st') = length (bufs st)"
    and "\<forall>p < length (bufs st). p \<noteq> fst (data A) \<longrightarrow> bufs st' ! p = bufs st ! p"
    and "take (snd (data A)) (bufs st' ! fst (data A)) = take (snd (data A)) (bufs st ! fst (data A))"
    and "drop (snd (data A) + total_bytes A) (bufs st' ! fst (data A))
           = drop (snd (data A) + total_bytes A) (bufs st ! fst (data A))"
    and "fst (data B) \<noteq> fst (data A) \<or> snd (data B) + total_bytes A \<le> snd (data A)
           \<or> snd (data A) + total_bytes A \<le> snd (data B) \<longrightarrow>
         take (total_bytes A) (bytes_at st' (data B)) = take (total_bytes A) (bytes_at st (data B))"
    and "b \<noteq> a \<longrightarrow> get_array st' b = Some B"
    and "anodes st' = anodes st @ [Some (length (onodes st))]"
    and "onodes st' = onodes st @ [\<lparr>name = nm, next_nodes = [node A, node B]\<rparr>]"
proof -
  from ga gb have lt: "a < length (arrays st)" "b < length (arrays st)"
    and ab: "arrays st ! a = A" "arrays st ! b = B"
    by (simp_all add: get_array_def split: if_splits)
  from wa lX have ib: "fst (data A) < length (bufs st)"
    "snd (data A) + length X \<le> length (bufs st ! fst (data A))"
    by (simp_all add: wf_array_def in_buffer_def)
  have bs: "bufs st' = (bufs st)[fst (data A) :=
              take (snd (data A)) (bufs st ! fst (data A)) @ X
              @ drop (snd (data A) + length X) (bufs st ! fst (data A))]"
    by (simp add: st' lX)
  note pb = patched_buffers [OF ib, folded bs]
  show "get_array st' a = Some (A\<lparr>node := length (anodes st)\<rparr>)"
    using lt by (simp add: st' get_array_def)
  show "bytes_at st' (data A) = X @ drop (snd (data A) + total_bytes A) (bufs st ! fst (data A))"
    using pb(5) by (simp add: bytes_at_def lX)
  show "length (bufs st') = length (bufs st)" by (rule pb(1))
  show "\<forall>p < length (bufs st). p \<noteq> fst (data A) \<longrightarrow> bufs st' ! p = bufs st ! p" by (rule pb(2))
  show "take (snd (data A)) (bufs st' ! fst (data A)) = take (snd (data A)) (bufs st ! fst (data A))"
    by (rule pb(3))
  show "drop (snd (data A) + total_bytes A) (bufs st' ! fst (data A))
           = drop (snd (data A) + total_bytes A) (bufs st ! fst (data A))"
    using pb(4) by (simp add: lX)
  show "fst (data B) \<noteq> fst (data A) \<or> snd (data B) + total_bytes A \<le> snd (data A)
           \<or> snd (data A) + total_bytes A \<le> snd (data B) \<longrightarrow>
         take (total_bytes A) (bytes_at st' (data B)) = take (total_bytes A) (bytes_at st (data B))"
    using pb(6) [of "data B" "total_bytes A"] by (simp add: bytes_at_def lX)
  show "b \<noteq> a \<longrightarrow> get_array st' b = Some B"
    using lt ab by (simp add: st' get_array_def)
  show "anodes st' = anodes st @ [Some (length (onodes st))]" by (simp add: st')
  show "onodes st' = onodes st @ [\<lparr>name = nm, next_nodes = [node A, node B]\<rparr>]" by (simp add: st')
qed

lemma ex_shift_facts:
  "get_array ex_shift 0 = Some ex_s0" "get_array ex_shift 1 = Some ex_s1"
  "shape ex_s0 = shape ex_s1" "dtype ex_s0 = dtype ex_s1"
  "shape ex_s1 = shape ex_s0" "dtype ex_s1 = dtype ex_s0"
  "wf_array ex_shift ex_s0" "wf_array ex_shift ex_s1"
  "dtype ex_s0 = kInt32" "dtype ex_s1 = kInt32"
  "reads_entry_values (data ex_s0) (data ex_s1) (total_bytes ex_s1)"
  "\<not> reads_entry_values (data ex_s1) (data ex_s0) (total_bytes ex_s0)"
  by (simp_all add: ex_shift_def ex_s0_def ex_s1_def get_array_def wf_array_def in_buffer_def
      total_bytes_def total_size_def reads_entry_values_def)

text \<open>
  C5, as stated, fails, in two ways. First, \<open>b\<close> does not stay unchanged when it shares
  memory with \<open>a\<close>: with two Arrays at one pointer to a buffer holding \<open>[1, 2]\<close>,
  \<^verbatim>\<open>a.IAdd(b)\<close> returns \<open>a\<close> and the elements of \<open>b\<close> have become \<open>[2, 4]\<close>. Second, the
  elements of \<open>a\<close> are not the sums of the elements before the call when \<open>b\<close> begins
  before \<open>a\<close> and reaches into it: in a buffer of the three \<^verbatim>\<open>int32\<close> 5, 1, 2, with \<open>a\<close>
  at byte 4 (\<open>[1, 2]\<close>) and \<open>b\<close> at byte 0 (\<open>[5, 1]\<close>), \<^verbatim>\<open>a.IAdd(b)\<close> leaves \<open>a[1] = 8\<close>,
  which is \<open>2 + 6\<close> with the \<open>6\<close> the loop has just written to \<open>a[0]\<close>, and not
  \<open>2 + 1\<close>.
\<close>

theorem IAdd_on_overlapping_arrays:
  "get_array ex_alias 0 = Some ex_a \<and> get_array ex_alias 1 = Some ex_a2 \<and>
   shape ex_a = shape ex_a2 \<and> dtype ex_a = dtype ex_a2 \<and>
   wf_array ex_alias ex_a \<and> wf_array ex_alias ex_a2 \<and>
   fst (IAdd ex_env 0 1 ex_alias) = Inr 0 \<and>
   bytes_at ex_alias (data ex_a2) = [1, 0, 0, 0, 2, 0, 0, 0] \<and>
   bytes_at (snd (IAdd ex_env 0 1 ex_alias)) (data ex_a2) = [2, 0, 0, 0, 4, 0, 0, 0] \<and>
   get_array ex_shift 0 = Some ex_s0 \<and> get_array ex_shift 1 = Some ex_s1 \<and>
   shape ex_s0 = shape ex_s1 \<and> dtype ex_s0 = dtype ex_s1 \<and> dtype ex_s0 = kInt32 \<and>
   wf_array ex_shift ex_s0 \<and> wf_array ex_shift ex_s1 \<and>
   fst (IAdd ex_env 0 1 ex_shift) = Inr 0 \<and>
   elem T_int32_t (bytes_at ex_shift (data ex_s0)) 1 = 2 \<and>
   elem T_int32_t (bytes_at ex_shift (data ex_s1)) 1 = 1 \<and>
   elem T_int32_t (bytes_at (snd (IAdd ex_env 0 1 ex_shift)) (data ex_s0)) 1 = 8 \<and>
   bufs (snd (IAdd ex_env 0 1 ex_shift)) = [[5, 0, 0, 0, 6, 0, 0, 0, 8, 0, 0, 0]]"
  by code_simp

text \<open>
  C5, amended. For Arrays \<open>a\<close> and \<open>b\<close> of one shape and dtype whose buffers hold
  \<open>total_size\<close> elements at their data pointers, each a value of the dtype's C++ type
  (a condition on \<^verbatim>\<open>bool\<close> only), and such that the elements of \<open>b\<close> do not begin before
  those of \<open>a\<close> and reach into them (they lie in another buffer, or begin where those
  of \<open>a\<close> begin or later, or end where those of \<open>a\<close> begin or before):
  \<^verbatim>\<open>a.IAdd(b)\<close> returns the identity of \<open>a\<close>; afterwards element \<open>i\<close> of \<open>a\<close> is, bit for
  bit, the result of the dtype's \<^verbatim>\<open>+\<close> on the elements \<open>i\<close> that \<open>a\<close> and \<open>b\<close> had before
  the call (so it compares equal to it with \<^verbatim>\<open>==\<close>, except where a floating-point
  result is a NaN); no byte of the store outside the elements of \<open>a\<close> is changed, so
  the elements of \<open>b\<close> are unchanged if they do not overlap those of \<open>a\<close>; the \<^verbatim>\<open>Array\<close>
  \<open>b\<close> is unchanged unless it is \<open>a\<close> itself; and the node of \<open>a\<close> is replaced by a new node
  whose producer is a new edge record named \<open>add\<close> over the nodes \<open>a\<close> and \<open>b\<close> had.
  \<^verbatim>\<open>IMul\<close> does the same with \<^verbatim>\<open>*\<close> and the name \<open>mul\<close>.
\<close>

theorem IAdd_IMul_in_place:
  assumes "get_array st a = Some A" and "get_array st b = Some B"
    and "shape A = shape B" and "dtype A = dtype B"
    and "wf_array st A" and "wf_array st B"
    and "holds_values env (dtype A) (bytes_at st (data A)) (total_size (shape A))"
    and "holds_values env (dtype A) (bytes_at st (data B)) (total_size (shape A))"
    and "reads_entry_values (data B) (data A) (total_bytes A)"
  shows "(\<exists>st'. IAdd env a b st = (Inr a, st') \<and>
            get_array st' a = Some (A\<lparr>node := length (anodes st)\<rparr>) \<and>
            is_sum env (dtype A) (bytes_at st (data A)) (bytes_at st (data B)) (bytes_at st' (data A))
              (total_size (shape A)) \<and>
            eq_sum env (dtype A) (bytes_at st (data A)) (bytes_at st (data B)) (bytes_at st' (data A))
              (total_size (shape A)) \<and>
            length (bufs st') = length (bufs st) \<and>
            (\<forall>p < length (bufs st). p \<noteq> fst (data A) \<longrightarrow> bufs st' ! p = bufs st ! p) \<and>
            take (snd (data A)) (bufs st' ! fst (data A)) = take (snd (data A)) (bufs st ! fst (data A)) \<and>
            drop (snd (data A) + total_bytes A) (bufs st' ! fst (data A))
              = drop (snd (data A) + total_bytes A) (bufs st ! fst (data A)) \<and>
            (fst (data B) \<noteq> fst (data A) \<or> snd (data B) + total_bytes A \<le> snd (data A)
               \<or> snd (data A) + total_bytes A \<le> snd (data B) \<longrightarrow>
             take (total_bytes A) (bytes_at st' (data B)) = take (total_bytes A) (bytes_at st (data B))) \<and>
            (b \<noteq> a \<longrightarrow> get_array st' b = Some B) \<and>
            anodes st' = anodes st @ [Some (length (onodes st))] \<and>
            onodes st' = onodes st @ [\<lparr>name = ''add'', next_nodes = [node A, node B]\<rparr>]) \<and>
         (\<exists>st'. IMul env a b st = (Inr a, st') \<and>
            get_array st' a = Some (A\<lparr>node := length (anodes st)\<rparr>) \<and>
            is_product env (dtype A) (bytes_at st (data A)) (bytes_at st (data B)) (bytes_at st' (data A))
              (total_size (shape A)) \<and>
            eq_product env (dtype A) (bytes_at st (data A)) (bytes_at st (data B)) (bytes_at st' (data A))
              (total_size (shape A)) \<and>
            length (bufs st') = length (bufs st) \<and>
            (\<forall>p < length (bufs st). p \<noteq> fst (data A) \<longrightarrow> bufs st' ! p = bufs st ! p) \<and>
            take (snd (data A)) (bufs st' ! fst (data A)) = take (snd (data A)) (bufs st ! fst (data A)) \<and>
            drop (snd (data A) + total_bytes A) (bufs st' ! fst (data A))
              = drop (snd (data A) + total_bytes A) (bufs st ! fst (data A)) \<and>
            (fst (data B) \<noteq> fst (data A) \<or> snd (data B) + total_bytes A \<le> snd (data A)
               \<or> snd (data A) + total_bytes A \<le> snd (data B) \<longrightarrow>
             take (total_bytes A) (bytes_at st' (data B)) = take (total_bytes A) (bytes_at st (data B))) \<and>
            (b \<noteq> a \<longrightarrow> get_array st' b = Some B) \<and>
            anodes st' = anodes st @ [Some (length (onodes st))] \<and>
            onodes st' = onodes st @ [\<lparr>name = ''mul'', next_nodes = [node A, node B]\<rparr>])"
proof (intro conjI)
  let ?n = "total_size (shape A)"
  let ?rest = "drop (snd (data A) + total_bytes A) (bufs st ! fst (data A))"
  let ?X = "add_bytes env (dtype A) (bytes_at st (data A)) (bytes_at st (data B)) ?n"
  define st' where "st' = st\<lparr>bufs := (bufs st)[fst (data A) :=
              take (snd (data A)) (bufs st ! fst (data A)) @ ?X @ ?rest],
            arrays := (arrays st)[a := A\<lparr>node := length (anodes st)\<rparr>],
            anodes := anodes st @ [Some (length (onodes st))],
            onodes := onodes st @ [\<lparr>name = ''add'', next_nodes = [node A, node B]\<rparr>]\<rparr>"
  have r: "IAdd env a b st = (Inr a, st')"
    unfolding st'_def by (rule IAdd_ok [OF assms])
  have lX: "length ?X = total_bytes A" by (simp add: length_add_bytes total_bytes_def)
  note f = in_place_frame [OF assms(1,2,5) lX st'_def]
  have s: "is_sum env (dtype A) (bytes_at st (data A)) (bytes_at st (data B)) (bytes_at st' (data A)) ?n"
    unfolding f(2) by (rule is_sum_add_bytes)
  from r f(1) s eq_sum_is_sum [OF s] f(3-10)
  show "\<exists>st'. IAdd env a b st = (Inr a, st') \<and>
            get_array st' a = Some (A\<lparr>node := length (anodes st)\<rparr>) \<and>
            is_sum env (dtype A) (bytes_at st (data A)) (bytes_at st (data B)) (bytes_at st' (data A))
              (total_size (shape A)) \<and>
            eq_sum env (dtype A) (bytes_at st (data A)) (bytes_at st (data B)) (bytes_at st' (data A))
              (total_size (shape A)) \<and>
            length (bufs st') = length (bufs st) \<and>
            (\<forall>p < length (bufs st). p \<noteq> fst (data A) \<longrightarrow> bufs st' ! p = bufs st ! p) \<and>
            take (snd (data A)) (bufs st' ! fst (data A)) = take (snd (data A)) (bufs st ! fst (data A)) \<and>
            drop (snd (data A) + total_bytes A) (bufs st' ! fst (data A))
              = drop (snd (data A) + total_bytes A) (bufs st ! fst (data A)) \<and>
            (fst (data B) \<noteq> fst (data A) \<or> snd (data B) + total_bytes A \<le> snd (data A)
               \<or> snd (data A) + total_bytes A \<le> snd (data B) \<longrightarrow>
             take (total_bytes A) (bytes_at st' (data B)) = take (total_bytes A) (bytes_at st (data B))) \<and>
            (b \<noteq> a \<longrightarrow> get_array st' b = Some B) \<and>
            anodes st' = anodes st @ [Some (length (onodes st))] \<and>
            onodes st' = onodes st @ [\<lparr>name = ''add'', next_nodes = [node A, node B]\<rparr>]"
    by blast
next
  let ?n = "total_size (shape A)"
  let ?rest = "drop (snd (data A) + total_bytes A) (bufs st ! fst (data A))"
  let ?X = "mul_bytes env (dtype A) (bytes_at st (data A)) (bytes_at st (data B)) ?n"
  define st' where "st' = st\<lparr>bufs := (bufs st)[fst (data A) :=
              take (snd (data A)) (bufs st ! fst (data A)) @ ?X @ ?rest],
            arrays := (arrays st)[a := A\<lparr>node := length (anodes st)\<rparr>],
            anodes := anodes st @ [Some (length (onodes st))],
            onodes := onodes st @ [\<lparr>name = ''mul'', next_nodes = [node A, node B]\<rparr>]\<rparr>"
  have r: "IMul env a b st = (Inr a, st')"
    unfolding st'_def by (rule IMul_ok [OF assms])
  have lX: "length ?X = total_bytes A" by (simp add: length_mul_bytes total_bytes_def)
  note f = in_place_frame [OF assms(1,2,5) lX st'_def]
  have s: "is_product env (dtype A) (bytes_at st (data A)) (bytes_at st (data B)) (bytes_at st' (data A)) ?n"
    unfolding f(2) by (rule is_product_mul_bytes)
  from r f(1) s eq_product_is_product [OF s] f(3-10)
  show "\<exists>st'. IMul env a b st = (Inr a, st') \<and>
            get_array st' a = Some (A\<lparr>node := length (anodes st)\<rparr>) \<and>
            is_product env (dtype A) (bytes_at st (data A)) (bytes_at st (data B)) (bytes_at st' (data A))
              (total_size (shape A)) \<and>
            eq_product env (dtype A) (bytes_at st (data A)) (bytes_at st (data B)) (bytes_at st' (data A))
              (total_size (shape A)) \<and>
            length (bufs st') = length (bufs st) \<and>
            (\<forall>p < length (bufs st). p \<noteq> fst (data A) \<longrightarrow> bufs st' ! p = bufs st ! p) \<and>
            take (snd (data A)) (bufs st' ! fst (data A)) = take (snd (data A)) (bufs st ! fst (data A)) \<and>
            drop (snd (data A) + total_bytes A) (bufs st' ! fst (data A))
              = drop (snd (data A) + total_bytes A) (bufs st ! fst (data A)) \<and>
            (fst (data B) \<noteq> fst (data A) \<or> snd (data B) + total_bytes A \<le> snd (data A)
               \<or> snd (data A) + total_bytes A \<le> snd (data B) \<longrightarrow>
             take (total_bytes A) (bytes_at st' (data B)) = take (total_bytes A) (bytes_at st (data B))) \<and>
            (b \<noteq> a \<longrightarrow> get_array st' b = Some B) \<and>
            anodes st' = anodes st @ [Some (length (onodes st))] \<and>
            onodes st' = onodes st @ [\<lparr>name = ''mul'', next_nodes = [node A, node B]\<rparr>]"
    by blast
qed

theorem IAdd_IMul_in_place_witness:
  "get_array ex_st 0 = Some ex_a \<and> get_array ex_st 1 = Some ex_b \<and>
   shape ex_a = shape ex_b \<and> dtype ex_a = dtype ex_b \<and>
   wf_array ex_st ex_a \<and> wf_array ex_st ex_b \<and>
   holds_values ex_env (dtype ex_a) (bytes_at ex_st (data ex_a)) (total_size (shape ex_a)) \<and>
   holds_values ex_env (dtype ex_a) (bytes_at ex_st (data ex_b)) (total_size (shape ex_a)) \<and>
   reads_entry_values (data ex_b) (data ex_a) (total_bytes ex_a) \<and>
   total_size (shape ex_a) = 2 \<and> fst (data ex_b) \<noteq> fst (data ex_a) \<and>
   (\<exists>st'. IAdd ex_env 0 1 ex_st = (Inr 0, st') \<and>
      get_array st' 0 = Some (ex_a\<lparr>node := length (anodes ex_st)\<rparr>) \<and>
      is_sum ex_env (dtype ex_a) (bytes_at ex_st (data ex_a)) (bytes_at ex_st (data ex_b))
        (bytes_at st' (data ex_a)) (total_size (shape ex_a)) \<and>
      eq_sum ex_env (dtype ex_a) (bytes_at ex_st (data ex_a)) (bytes_at ex_st (data ex_b))
        (bytes_at st' (data ex_a)) (total_size (shape ex_a)) \<and>
      take (total_bytes ex_a) (bytes_at st' (data ex_b))
        = take (total_bytes ex_a) (bytes_at ex_st (data ex_b)) \<and>
      get_array st' 1 = Some ex_b \<and>
      anodes st' = anodes ex_st @ [Some (length (onodes ex_st))] \<and>
      onodes st' = onodes ex_st @ [\<lparr>name = ''add'', next_nodes = [node ex_a, node ex_b]\<rparr>]) \<and>
   (\<exists>st'. IMul ex_env 0 1 ex_st = (Inr 0, st') \<and>
      get_array st' 0 = Some (ex_a\<lparr>node := length (anodes ex_st)\<rparr>) \<and>
      is_product ex_env (dtype ex_a) (bytes_at ex_st (data ex_a)) (bytes_at ex_st (data ex_b))
        (bytes_at st' (data ex_a)) (total_size (shape ex_a)) \<and>
      eq_product ex_env (dtype ex_a) (bytes_at ex_st (data ex_a)) (bytes_at ex_st (data ex_b))
        (bytes_at st' (data ex_a)) (total_size (shape ex_a)) \<and>
      take (total_bytes ex_a) (bytes_at st' (data ex_b))
        = take (total_bytes ex_a) (bytes_at ex_st (data ex_b)) \<and>
      get_array st' 1 = Some ex_b \<and>
      anodes st' = anodes ex_st @ [Some (length (onodes ex_st))] \<and>
      onodes st' = onodes ex_st @ [\<lparr>name = ''mul'', next_nodes = [node ex_a, node ex_b]\<rparr>]) \<and>
   bufs (snd (IAdd ex_env 0 1 ex_st)) = [[4, 0, 0, 0, 6, 0, 0, 0], [3, 0, 0, 0, 4, 0, 0, 0]] \<and>
   get_array ex_shift 1 = Some ex_s1 \<and> get_array ex_shift 0 = Some ex_s0 \<and>
   shape ex_s1 = shape ex_s0 \<and> dtype ex_s1 = dtype ex_s0 \<and>
   wf_array ex_shift ex_s1 \<and> wf_array ex_shift ex_s0 \<and>
   reads_entry_values (data ex_s0) (data ex_s1) (total_bytes ex_s1) \<and>
   (\<exists>st'. IAdd ex_env 1 0 ex_shift = (Inr 1, st') \<and>
      is_sum ex_env (dtype ex_s1) (bytes_at ex_shift (data ex_s1)) (bytes_at ex_shift (data ex_s0))
        (bytes_at st' (data ex_s1)) (total_size (shape ex_s1))) \<and>
   bufs ex_shift = [[5, 0, 0, 0, 1, 0, 0, 0, 2, 0, 0, 0]] \<and>
   bufs (snd (IAdd ex_env 1 0 ex_shift)) = [[6, 0, 0, 0, 3, 0, 0, 0, 2, 0, 0, 0]]"
proof -
  note h = ex_facts
  note s = ex_shift_facts
  have hv: "holds_values ex_env (dtype ex_a) (bytes_at ex_st (data ex_a)) (total_size (shape ex_a))"
    "holds_values ex_env (dtype ex_a) (bytes_at ex_st (data ex_b)) (total_size (shape ex_a))"
    by (rule ex_holds)+
  have ne: "fst (data ex_b) \<noteq> fst (data ex_a)" "(1::nat) \<noteq> 0"
    by (simp_all add: ex_a_def ex_b_def)
  then have re: "reads_entry_values (data ex_b) (data ex_a) (total_bytes ex_a)"
    by (simp add: reads_entry_values_def)
  have sv: "holds_values ex_env (dtype ex_s1) (bytes_at ex_shift (data ex_s1)) (total_size (shape ex_s1))"
    "holds_values ex_env (dtype ex_s1) (bytes_at ex_shift (data ex_s0)) (total_size (shape ex_s1))"
    by (simp_all add: s(10) holds_values_int32)
  have v: "bufs (snd (IAdd ex_env 0 1 ex_st)) = [[4, 0, 0, 0, 6, 0, 0, 0], [3, 0, 0, 0, 4, 0, 0, 0]]"
    "bufs ex_shift = [[5, 0, 0, 0, 1, 0, 0, 0, 2, 0, 0, 0]]"
    "bufs (snd (IAdd ex_env 1 0 ex_shift)) = [[6, 0, 0, 0, 3, 0, 0, 0, 2, 0, 0, 0]]"
    by code_simp+
  note t = IAdd_IMul_in_place [OF h(1-6) hv re]
  from t ne have 1: "\<exists>st'. IAdd ex_env 0 1 ex_st = (Inr 0, st') \<and>
      get_array st' 0 = Some (ex_a\<lparr>node := length (anodes ex_st)\<rparr>) \<and>
      is_sum ex_env (dtype ex_a) (bytes_at ex_st (data ex_a)) (bytes_at ex_st (data ex_b))
        (bytes_at st' (data ex_a)) (total_size (shape ex_a)) \<and>
      eq_sum ex_env (dtype ex_a) (bytes_at ex_st (data ex_a)) (bytes_at ex_st (data ex_b))
        (bytes_at st' (data ex_a)) (total_size (shape ex_a)) \<and>
      take (total_bytes ex_a) (bytes_at st' (data ex_b))
        = take (total_bytes ex_a) (bytes_at ex_st (data ex_b)) \<and>
      get_array st' 1 = Some ex_b \<and>
      anodes st' = anodes ex_st @ [Some (length (onodes ex_st))] \<and>
      onodes st' = onodes ex_st @ [\<lparr>name = ''add'', next_nodes = [node ex_a, node ex_b]\<rparr>]"
    by blast
  from t ne have 2: "\<exists>st'. IMul ex_env 0 1 ex_st = (Inr 0, st') \<and>
      get_array st' 0 = Some (ex_a\<lparr>node := length (anodes ex_st)\<rparr>) \<and>
      is_product ex_env (dtype ex_a) (bytes_at ex_st (data ex_a)) (bytes_at ex_st (data ex_b))
        (bytes_at st' (data ex_a)) (total_size (shape ex_a)) \<and>
      eq_product ex_env (dtype ex_a) (bytes_at ex_st (data ex_a)) (bytes_at ex_st (data ex_b))
        (bytes_at st' (data ex_a)) (total_size (shape ex_a)) \<and>
      take (total_bytes ex_a) (bytes_at st' (data ex_b))
        = take (total_bytes ex_a) (bytes_at ex_st (data ex_b)) \<and>
      get_array st' 1 = Some ex_b \<and>
      anodes st' = anodes ex_st @ [Some (length (onodes ex_st))] \<and>
      onodes st' = onodes ex_st @ [\<lparr>name = ''mul'', next_nodes = [node ex_a, node ex_b]\<rparr>]"
    by blast
  from IAdd_IMul_in_place [OF s(2,1,5,6,8,7) sv s(11)]
  have 3: "\<exists>st'. IAdd ex_env 1 0 ex_shift = (Inr 1, st') \<and>
      is_sum ex_env (dtype ex_s1) (bytes_at ex_shift (data ex_s1)) (bytes_at ex_shift (data ex_s0))
        (bytes_at st' (data ex_s1)) (total_size (shape ex_s1))"
    by blast
  from h(1-6,8) hv re ne(1) 1 2 v s(2,1,5,6,8,7,11) 3 show ?thesis by blast
qed

lemma Add_out_writes:
  assumes "get_array st this = Some lhs" and "get_array st rhs = Some r"
    and "get_array st out = Some ou"
    and dt: "dtype lhs = dtype r" and sh: "shape lhs = shape r"
    and wl: "wf_array st lhs" and wr: "wf_array st r"
    and io: "in_buffer st (data ou) (total_bytes lhs)"
    and hl: "holds_values env (dtype lhs) (bytes_at st (data lhs)) (total_size (shape lhs))"
    and hr: "holds_values env (dtype lhs) (bytes_at st (data r)) (total_size (shape lhs))"
  shows "\<exists>st' X. Add_out env this rhs out st = (Inr (), st') \<and> length X = total_bytes lhs \<and>
           bufs st' = (bufs st)[fst (data ou) := take (snd (data ou)) (bufs st ! fst (data ou)) @ X
               @ drop (snd (data ou) + total_bytes lhs) (bufs st ! fst (data ou))] \<and>
           (reads_entry_values (data lhs) (data ou) (total_bytes lhs) \<and>
            reads_entry_values (data r) (data ou) (total_bytes lhs) \<longrightarrow>
              X = add_bytes env (dtype lhs) (bytes_at st (data lhs)) (bytes_at st (data r))
                    (total_size (shape lhs)) \<and>
              is_sum env (dtype lhs) (bytes_at st (data lhs)) (bytes_at st (data r))
                (bytes_at st' (data ou)) (total_size (shape lhs)))"
proof -
  let ?n = "total_size (shape lhs)"
  let ?len = "?n * GetElementSize (dtype lhs)"
  have tb: "total_bytes lhs = ?len" "total_bytes r = ?len"
    using dt sh by (simp_all add: total_bytes_def)
  have ib: "in_buffer st (data lhs) ?len" "in_buffer st (data r) ?len" "in_buffer st (data ou) ?len"
    using wl wr io by (simp_all add: wf_array_def tb)
  show ?thesis
  proof (cases "reads_entry_values (data lhs) (data ou) (total_bytes lhs) \<and>
            reads_entry_values (data r) (data ou) (total_bytes lhs)")
    case True
    then have re: "reads_entry_values (data lhs) (data ou) ?len" "reads_entry_values (data r) (data ou) ?len"
      by (simp_all add: tb)
    define X where "X = add_bytes env (dtype lhs) (bytes_at st (data lhs)) (bytes_at st (data r)) ?n"
    have lX: "length X = ?len" unfolding X_def by (rule length_add_bytes)
    have o: "fst (data ou) < length (bufs st)" "snd (data ou) + length X \<le> length (bufs st ! fst (data ou))"
      using ib(3) lX by (simp_all add: in_buffer_def)
    note ok = Add_out_ok [OF assms(1,2,3) dt sh ib re hl hr, folded X_def]
    have bs: "bufs (snd (Add_out env this rhs out st)) = (bufs st)[fst (data ou) :=
        take (snd (data ou)) (bufs st ! fst (data ou)) @ X
        @ drop (snd (data ou) + length X) (bufs st ! fst (data ou))]"
      by (simp add: ok lX)
    have "bytes_at (snd (Add_out env this rhs out st)) (data ou)
        = X @ drop (snd (data ou) + length X) (bufs st ! fst (data ou))"
      unfolding bytes_at_def bs by (rule patched_buffers(5) [OF o])
    then have "is_sum env (dtype lhs) (bytes_at st (data lhs)) (bytes_at st (data r))
        (bytes_at (snd (Add_out env this rhs out st)) (data ou)) ?n"
      by (simp add: X_def is_sum_add_bytes)
    with lX show ?thesis
      by (intro exI [of _ "snd (Add_out env this rhs out st)"] exI [of _ X]) (simp add: ok tb X_def)
  next
    case False
    from Add_out_returns [OF assms(1,2,3) dt sh ib hl hr] False show ?thesis
      by (auto simp: tb)
  qed
qed

lemma Mul_out_writes:
  assumes "get_array st this = Some lhs" and "get_array st rhs = Some r"
    and "get_array st out = Some ou"
    and dt: "dtype lhs = dtype r" and sh: "shape lhs = shape r"
    and wl: "wf_array st lhs" and wr: "wf_array st r"
    and io: "in_buffer st (data ou) (total_bytes lhs)"
    and hl: "holds_values env (dtype lhs) (bytes_at st (data lhs)) (total_size (shape lhs))"
    and hr: "holds_values env (dtype lhs) (bytes_at st (data r)) (total_size (shape lhs))"
  shows "\<exists>st' X. Mul_out env this rhs out st = (Inr (), st') \<and> length X = total_bytes lhs \<and>
           bufs st' = (bufs st)[fst (data ou) := take (snd (data ou)) (bufs st ! fst (data ou)) @ X
               @ drop (snd (data ou) + total_bytes lhs) (bufs st ! fst (data ou))] \<and>
           (reads_entry_values (data lhs) (data ou) (total_bytes lhs) \<and>
            reads_entry_values (data r) (data ou) (total_bytes lhs) \<longrightarrow>
              X = mul_bytes env (dtype lhs) (bytes_at st (data lhs)) (bytes_at st (data r))
                    (total_size (shape lhs)) \<and>
              is_product env (dtype lhs) (bytes_at st (data lhs)) (bytes_at st (data r))
                (bytes_at st' (data ou)) (total_size (shape lhs)))"
proof -
  let ?n = "total_size (shape lhs)"
  let ?len = "?n * GetElementSize (dtype lhs)"
  have tb: "total_bytes lhs = ?len" "total_bytes r = ?len"
    using dt sh by (simp_all add: total_bytes_def)
  have ib: "in_buffer st (data lhs) ?len" "in_buffer st (data r) ?len" "in_buffer st (data ou) ?len"
    using wl wr io by (simp_all add: wf_array_def tb)
  show ?thesis
  proof (cases "reads_entry_values (data lhs) (data ou) (total_bytes lhs) \<and>
            reads_entry_values (data r) (data ou) (total_bytes lhs)")
    case True
    then have re: "reads_entry_values (data lhs) (data ou) ?len" "reads_entry_values (data r) (data ou) ?len"
      by (simp_all add: tb)
    define X where "X = mul_bytes env (dtype lhs) (bytes_at st (data lhs)) (bytes_at st (data r)) ?n"
    have lX: "length X = ?len" unfolding X_def by (rule length_mul_bytes)
    have o: "fst (data ou) < length (bufs st)" "snd (data ou) + length X \<le> length (bufs st ! fst (data ou))"
      using ib(3) lX by (simp_all add: in_buffer_def)
    note ok = Mul_out_ok [OF assms(1,2,3) dt sh ib re hl hr, folded X_def]
    have bs: "bufs (snd (Mul_out env this rhs out st)) = (bufs st)[fst (data ou) :=
        take (snd (data ou)) (bufs st ! fst (data ou)) @ X
        @ drop (snd (data ou) + length X) (bufs st ! fst (data ou))]"
      by (simp add: ok lX)
    have "bytes_at (snd (Mul_out env this rhs out st)) (data ou)
        = X @ drop (snd (data ou) + length X) (bufs st ! fst (data ou))"
      unfolding bytes_at_def bs by (rule patched_buffers(5) [OF o])
    then have "is_product env (dtype lhs) (bytes_at st (data lhs)) (bytes_at st (data r))
        (bytes_at (snd (Mul_out env this rhs out st)) (data ou)) ?n"
      by (simp add: X_def is_product_mul_bytes)
    with lX show ?thesis
      by (intro exI [of _ "snd (Mul_out env this rhs out st)"] exI [of _ X]) (simp add: ok tb X_def)
  next
    case False
    from Mul_out_returns [OF assms(1,2,3) dt sh ib hl hr] False show ?thesis
      by (auto simp: tb)
  qed
qed

text \<open>
  C9. For the forms \<^verbatim>\<open>Add(rhs, out)\<close> and \<^verbatim>\<open>Mul(rhs, out)\<close> on three Arrays of the store:
  an exception is raised if and only if the dtypes or the shapes of the left and the
  right operand differ, whatever \<open>out\<close> is. When they agree, the operands hold
  \<open>total_size\<close> values of their dtype, and the buffer of \<open>out\<close> has room for
  \<open>total_size\<close> elements of the left operand's dtype at the data pointer of \<open>out\<close>, the
  call returns and has overwritten exactly these bytes, leaving every other byte of the
  store as it was; and when moreover no operand begins before these bytes and reaches
  into them, what it has written are the sums (products), computed in the left
  operand's dtype, of the elements the operands had at entry. Neither the shape nor the
  dtype of \<open>out\<close> occurs in any condition. A buffer of \<open>out\<close> that is too small is not
  detected either: the write outside it is the fault of the model, not an exception.
\<close>

theorem in_place_output_unchecked:
  assumes "get_array st this = Some lhs" and "get_array st rhs = Some r"
    and "get_array st out = Some ou"
  shows "(raises (fst (Add_out env this rhs out st)) \<longleftrightarrow> dtype lhs \<noteq> dtype r \<or> shape lhs \<noteq> shape r) \<and>
         (raises (fst (Mul_out env this rhs out st)) \<longleftrightarrow> dtype lhs \<noteq> dtype r \<or> shape lhs \<noteq> shape r) \<and>
         (dtype lhs = dtype r \<and> shape lhs = shape r \<and> wf_array st lhs \<and> wf_array st r \<and>
          in_buffer st (data ou) (total_bytes lhs) \<and>
          holds_values env (dtype lhs) (bytes_at st (data lhs)) (total_size (shape lhs)) \<and>
          holds_values env (dtype lhs) (bytes_at st (data r)) (total_size (shape lhs)) \<longrightarrow>
            (\<exists>st' X. Add_out env this rhs out st = (Inr (), st') \<and> length X = total_bytes lhs \<and>
               bufs st' = (bufs st)[fst (data ou) := take (snd (data ou)) (bufs st ! fst (data ou)) @ X
                   @ drop (snd (data ou) + total_bytes lhs) (bufs st ! fst (data ou))] \<and>
               (reads_entry_values (data lhs) (data ou) (total_bytes lhs) \<and>
                reads_entry_values (data r) (data ou) (total_bytes lhs) \<longrightarrow>
                  X = add_bytes env (dtype lhs) (bytes_at st (data lhs)) (bytes_at st (data r))
                        (total_size (shape lhs)) \<and>
                  is_sum env (dtype lhs) (bytes_at st (data lhs)) (bytes_at st (data r))
                    (bytes_at st' (data ou)) (total_size (shape lhs)))) \<and>
            (\<exists>st' X. Mul_out env this rhs out st = (Inr (), st') \<and> length X = total_bytes lhs \<and>
               bufs st' = (bufs st)[fst (data ou) := take (snd (data ou)) (bufs st ! fst (data ou)) @ X
                   @ drop (snd (data ou) + total_bytes lhs) (bufs st ! fst (data ou))] \<and>
               (reads_entry_values (data lhs) (data ou) (total_bytes lhs) \<and>
                reads_entry_values (data r) (data ou) (total_bytes lhs) \<longrightarrow>
                  X = mul_bytes env (dtype lhs) (bytes_at st (data lhs)) (bytes_at st (data r))
                        (total_size (shape lhs)) \<and>
                  is_product env (dtype lhs) (bytes_at st (data lhs)) (bytes_at st (data r))
                    (bytes_at st' (data ou)) (total_size (shape lhs)))))"
proof (intro conjI impI)
  show "raises (fst (Add_out env this rhs out st)) \<longleftrightarrow> dtype lhs \<noteq> dtype r \<or> shape lhs \<noteq> shape r"
    by (rule Add_out_raises [OF assms(1,2)])
  show "raises (fst (Mul_out env this rhs out st)) \<longleftrightarrow> dtype lhs \<noteq> dtype r \<or> shape lhs \<noteq> shape r"
    by (rule Mul_out_raises [OF assms(1,2)])
next
  assume a: "dtype lhs = dtype r \<and> shape lhs = shape r \<and> wf_array st lhs \<and> wf_array st r \<and>
          in_buffer st (data ou) (total_bytes lhs) \<and>
          holds_values env (dtype lhs) (bytes_at st (data lhs)) (total_size (shape lhs)) \<and>
          holds_values env (dtype lhs) (bytes_at st (data r)) (total_size (shape lhs))"
  then have dt: "dtype lhs = dtype r" and sh: "shape lhs = shape r"
    and wl: "wf_array st lhs" and wr: "wf_array st r"
    and io: "in_buffer st (data ou) (total_bytes lhs)"
    and hl: "holds_values env (dtype lhs) (bytes_at st (data lhs)) (total_size (shape lhs))"
    and hr: "holds_values env (dtype lhs) (bytes_at st (data r)) (total_size (shape lhs))"
    by blast+
  show "\<exists>st' X. Add_out env this rhs out st = (Inr (), st') \<and> length X = total_bytes lhs \<and>
               bufs st' = (bufs st)[fst (data ou) := take (snd (data ou)) (bufs st ! fst (data ou)) @ X
                   @ drop (snd (data ou) + total_bytes lhs) (bufs st ! fst (data ou))] \<and>
               (reads_entry_values (data lhs) (data ou) (total_bytes lhs) \<and>
                reads_entry_values (data r) (data ou) (total_bytes lhs) \<longrightarrow>
                  X = add_bytes env (dtype lhs) (bytes_at st (data lhs)) (bytes_at st (data r))
                        (total_size (shape lhs)) \<and>
                  is_sum env (dtype lhs) (bytes_at st (data lhs)) (bytes_at st (data r))
                    (bytes_at st' (data ou)) (total_size (shape lhs)))"
    by (rule Add_out_writes [OF assms dt sh wl wr io hl hr])
  show "\<exists>st' X. Mul_out env this rhs out st = (Inr (), st') \<and> length X = total_bytes lhs \<and>
               bufs st' = (bufs st)[fst (data ou) := take (snd (data ou)) (bufs st ! fst (data ou)) @ X
                   @ drop (snd (data ou) + total_bytes lhs) (bufs st ! fst (data ou))] \<and>
               (reads_entry_values (data lhs) (data ou) (total_bytes lhs) \<and>
                reads_entry_values (data r) (data ou) (total_bytes lhs) \<longrightarrow>
                  X = mul_bytes env (dtype lhs) (bytes_at st (data lhs)) (bytes_at st (data r))
                        (total_size (shape lhs)) \<and>
                  is_product env (dtype lhs) (bytes_at st (data lhs)) (bytes_at st (data r))
                    (bytes_at st' (data ou)) (total_size (shape lhs)))"
    by (rule Mul_out_writes [OF assms dt sh wl wr io hl hr])
qed

theorem in_place_output_unchecked_witness:
  "get_array ex_st3 0 = Some ex_a \<and> get_array ex_st3 1 = Some ex_b \<and>
   get_array ex_st3 2 = Some ex_o \<and>
   dtype ex_a = dtype ex_b \<and> shape ex_a = shape ex_b \<and>
   dtype ex_o \<noteq> dtype ex_a \<and> shape ex_o \<noteq> shape ex_a \<and>
   wf_array ex_st3 ex_a \<and> wf_array ex_st3 ex_b \<and>
   in_buffer ex_st3 (data ex_o) (total_bytes ex_a) \<and>
   holds_values ex_env (dtype ex_a) (bytes_at ex_st3 (data ex_a)) (total_size (shape ex_a)) \<and>
   holds_values ex_env (dtype ex_a) (bytes_at ex_st3 (data ex_b)) (total_size (shape ex_a)) \<and>
   reads_entry_values (data ex_a) (data ex_o) (total_bytes ex_a) \<and>
   reads_entry_values (data ex_b) (data ex_o) (total_bytes ex_a) \<and>
   \<not> raises (fst (Add_out ex_env 0 1 2 ex_st3)) \<and> \<not> raises (fst (Mul_out ex_env 0 1 2 ex_st3)) \<and>
   (\<exists>st'. Add_out ex_env 0 1 2 ex_st3 = (Inr (), st') \<and>
      is_sum ex_env (dtype ex_a) (bytes_at ex_st3 (data ex_a)) (bytes_at ex_st3 (data ex_b))
        (bytes_at st' (data ex_o)) (total_size (shape ex_a))) \<and>
   (\<exists>st'. Mul_out ex_env 0 1 2 ex_st3 = (Inr (), st') \<and>
      is_product ex_env (dtype ex_a) (bytes_at ex_st3 (data ex_a)) (bytes_at ex_st3 (data ex_b))
        (bytes_at st' (data ex_o)) (total_size (shape ex_a))) \<and>
   bufs ex_st3 ! 2 = [9, 9, 9, 9, 9, 9, 9, 9, 9] \<and>
   bufs (snd (Add_out ex_env 0 1 2 ex_st3)) ! 2 = [4, 0, 0, 0, 6, 0, 0, 0, 9] \<and>
   bufs (snd (Mul_out ex_env 0 1 2 ex_st3)) ! 2 = [3, 0, 0, 0, 8, 0, 0, 0, 9] \<and>
   get_array ex_shift 0 = Some ex_s0 \<and> get_array ex_shift 1 = Some ex_s1 \<and>
   dtype ex_s0 = dtype ex_s1 \<and> shape ex_s0 = shape ex_s1 \<and>
   wf_array ex_shift ex_s0 \<and> wf_array ex_shift ex_s1 \<and>
   \<not> reads_entry_values (data ex_s1) (data ex_s0) (total_bytes ex_s0) \<and>
   (\<exists>st' X. Add_out ex_env 0 1 0 ex_shift = (Inr (), st') \<and> length X = total_bytes ex_s0 \<and>
      bufs st' = (bufs ex_shift)[fst (data ex_s0) :=
        take (snd (data ex_s0)) (bufs ex_shift ! fst (data ex_s0)) @ X
        @ drop (snd (data ex_s0) + total_bytes ex_s0) (bufs ex_shift ! fst (data ex_s0))]) \<and>
   bufs (snd (Add_out ex_env 0 1 0 ex_shift)) = [[5, 0, 0, 0, 6, 0, 0, 0, 8, 0, 0, 0]]"
proof -
  have h: "get_array ex_st3 0 = Some ex_a" "get_array ex_st3 1 = Some ex_b"
    "get_array ex_st3 2 = Some ex_o"
    by (simp_all add: ex_st3_def get_array_def)
  have eq: "dtype ex_a = dtype ex_b" "shape ex_a = shape ex_b"
    "dtype ex_o \<noteq> dtype ex_a" "shape ex_o \<noteq> shape ex_a"
    by (simp_all add: ex_a_def ex_b_def ex_o_def)
  have wf: "wf_array ex_st3 ex_a" "wf_array ex_st3 ex_b"
    "in_buffer ex_st3 (data ex_o) (total_bytes ex_a)"
    by (simp_all add: ex_st3_def ex_a_def ex_b_def ex_o_def wf_array_def in_buffer_def
        total_bytes_def total_size_def)
  have hv: "holds_values ex_env (dtype ex_a) (bytes_at ex_st3 (data ex_a)) (total_size (shape ex_a))"
    "holds_values ex_env (dtype ex_a) (bytes_at ex_st3 (data ex_b)) (total_size (shape ex_a))"
    by (rule ex_holds)+
  have re: "reads_entry_values (data ex_a) (data ex_o) (total_bytes ex_a)"
    "reads_entry_values (data ex_b) (data ex_o) (total_bytes ex_a)"
    by (simp_all add: reads_entry_values_def ex_a_def ex_b_def ex_o_def)
  have v: "bufs ex_st3 ! 2 = [9, 9, 9, 9, 9, 9, 9, 9, 9]"
    "bufs (snd (Add_out ex_env 0 1 2 ex_st3)) ! 2 = [4, 0, 0, 0, 6, 0, 0, 0, 9]"
    "bufs (snd (Mul_out ex_env 0 1 2 ex_st3)) ! 2 = [3, 0, 0, 0, 8, 0, 0, 0, 9]"
    "bufs (snd (Add_out ex_env 0 1 0 ex_shift)) = [[5, 0, 0, 0, 6, 0, 0, 0, 8, 0, 0, 0]]"
    by code_simp+
  note s = ex_shift_facts
  have sv: "holds_values ex_env (dtype ex_s0) (bytes_at ex_shift (data ex_s0)) (total_size (shape ex_s0))"
    "holds_values ex_env (dtype ex_s0) (bytes_at ex_shift (data ex_s1)) (total_size (shape ex_s0))"
    by (simp_all add: s(9) holds_values_int32)
  have so: "in_buffer ex_shift (data ex_s0) (total_bytes ex_s0)"
    using s(7) by (simp add: wf_array_def)
  note t = in_place_output_unchecked [OF h, of ex_env]
  from t eq have r: "\<not> raises (fst (Add_out ex_env 0 1 2 ex_st3))"
    "\<not> raises (fst (Mul_out ex_env 0 1 2 ex_st3))" by blast+
  from t eq wf hv re have 1: "\<exists>st'. Add_out ex_env 0 1 2 ex_st3 = (Inr (), st') \<and>
      is_sum ex_env (dtype ex_a) (bytes_at ex_st3 (data ex_a)) (bytes_at ex_st3 (data ex_b))
        (bytes_at st' (data ex_o)) (total_size (shape ex_a))" by blast
  from t eq wf hv re have 2: "\<exists>st'. Mul_out ex_env 0 1 2 ex_st3 = (Inr (), st') \<and>
      is_product ex_env (dtype ex_a) (bytes_at ex_st3 (data ex_a)) (bytes_at ex_st3 (data ex_b))
        (bytes_at st' (data ex_o)) (total_size (shape ex_a))" by blast
  from in_place_output_unchecked [OF s(1,2,1), of ex_env] s(3,4,7,8) so sv
  have 3: "\<exists>st' X. Add_out ex_env 0 1 0 ex_shift = (Inr (), st') \<and> length X = total_bytes ex_s0 \<and>
      bufs st' = (bufs ex_shift)[fst (data ex_s0) :=
        take (snd (data ex_s0)) (bufs ex_shift ! fst (data ex_s0)) @ X
        @ drop (snd (data ex_s0) + total_bytes ex_s0) (bufs ex_shift ! fst (data ex_s0))]" by blast
  from h eq wf hv re r 1 2 v s(1,2,4,3,7,8,12) 3 show ?thesis by blast
qed

subsection \<open>Offsets\<close>

lemma read_elem_arrays: "read_elem T (st\<lparr>arrays := X\<rparr>) p i = read_elem T st p i"
  by (simp add: read_elem_def get_buf_def)

lemma write_elem_arrays:
  "write_elem T (st\<lparr>arrays := X\<rparr>) p i v = map_option (\<lambda>s. s\<lparr>arrays := X\<rparr>) (write_elem T st p i v)"
  by (simp add: write_elem_def get_buf_def split: option.splits)

lemma loop_arrays:
  "elementwise_loop T f l r o' i n (st\<lparr>arrays := X\<rparr>) =
     (fst (elementwise_loop T f l r o' i n st), (snd (elementwise_loop T f l r o' i n st))\<lparr>arrays := X\<rparr>)"
proof (induction T f l r o' i n st rule: elementwise_loop.induct)
  case (1 T f l r o' i n st)
  show ?case
  proof (cases "i < n")
    case False
    then show ?thesis by simp
  next
    case True
    show ?thesis
    proof (cases "read_elem T st l i")
      case None
      with True show ?thesis
        by (subst elementwise_loop.simps) (simp add: read_elem_arrays)
    next
      case (Some x)
      show ?thesis
      proof (cases "read_elem T st r i")
        case None
        with True Some show ?thesis
          by (subst elementwise_loop.simps) (simp add: read_elem_arrays)
      next
        case y: (Some y)
        show ?thesis
        proof (cases "write_elem T st o' i (f x y)")
          case None
          with True Some y show ?thesis
            by (subst elementwise_loop.simps) (simp add: read_elem_arrays write_elem_arrays)
        next
          case st1: (Some st1)
          have "elementwise_loop T f l r o' i n (st\<lparr>arrays := X\<rparr>)
              = elementwise_loop T f l r o' (Suc i) n (st1\<lparr>arrays := X\<rparr>)"
            using True Some y st1
            by (subst elementwise_loop.simps) (simp add: read_elem_arrays write_elem_arrays)
          moreover have "elementwise_loop T f l r o' i n st = elementwise_loop T f l r o' (Suc i) n st1"
            using True Some y st1 by (subst elementwise_loop.simps) simp
          ultimately show ?thesis using "1.IH" [OF True refl Some y st1] by simp
        qed
      qed
    qed
  qed
qed

lemma get_array_erase:
  "get_array (erase_offsets st) x = map_option (\<lambda>a. a\<lparr>offset := 0\<rparr>) (get_array st x)"
  by (simp add: get_array_def erase_offsets_def)

lemma Add_T_erase:
  "Add_T T this rhs out (erase_offsets st) =
     (fst (Add_T T this rhs out st), erase_offsets (snd (Add_T T this rhs out st)))"
proof (cases "get_array st this")
  case None
  then show ?thesis by (simp add: Add_T_def get_array_erase)
next
  case l: (Some lhs)
  show ?thesis
  proof (cases "get_array st rhs")
    case None
    with l show ?thesis by (simp add: Add_T_def get_array_erase)
  next
    case r: (Some r)
    show ?thesis
    proof (cases "get_array st out")
      case None
      with l r show ?thesis by (simp add: Add_T_def get_array_erase)
    next
      case ou: (Some ou)
      let ?X = "map (\<lambda>a. a\<lparr>offset := 0\<rparr>) (arrays st)"
      obtain res1 B where lp: "elementwise_loop T (c_add T) (data lhs) (data r) (data ou) 0
            (total_size (shape lhs)) st = (res1, st\<lparr>bufs := B\<rparr>)"
        and lB: "length B = length (bufs st)" by (rule loop_result)
      have lp': "elementwise_loop T (c_add T) (data lhs) (data r) (data ou) 0
            (total_size (shape lhs)) (erase_offsets st) = (res1, (erase_offsets st)\<lparr>bufs := B\<rparr>)"
        using loop_arrays [where st = st and X = ?X, of T "c_add T" "data lhs" "data r" "data ou" 0 "total_size (shape lhs)"] lp
        by (simp add: erase_offsets_def)
      have g: "get_array (erase_offsets st) this = Some (lhs\<lparr>offset := 0\<rparr>)"
        "get_array (erase_offsets st) rhs = Some (r\<lparr>offset := 0\<rparr>)"
        "get_array (erase_offsets st) out = Some (ou\<lparr>offset := 0\<rparr>)"
        using l r ou by (simp_all add: get_array_erase)
      have lB': "length B = length (bufs (erase_offsets st))" using lB by (simp add: erase_offsets_def)
      show ?thesis
      proof (cases res1)
        case (Inl e)
        have 1: "Add_T T this rhs out st = (Inl e, st\<lparr>bufs := B\<rparr>)"
          using l r ou lp Inl
          by (simp add: Add_T_def bindM_def [of "elementwise_loop T (c_add T) (data lhs) (data r)
                (data ou) 0 (total_size (shape lhs))"])
        have 2: "Add_T T this rhs out (erase_offsets st) = (Inl e, (erase_offsets st)\<lparr>bufs := B\<rparr>)"
          using g lp' Inl
          by (simp add: Add_T_def bindM_def [of "elementwise_loop T (c_add T) (data lhs) (data r)
                (data ou) 0 (total_size (shape lhs))"])
        show ?thesis unfolding 1 2 by (simp add: erase_offsets_def)
      next
        case (Inr u)
        have 1: "Add_T T this rhs out st = (Inr (), st\<lparr>bufs := B,
              arrays := (arrays st)[out := ou\<lparr>node := length (anodes st)\<rparr>],
              anodes := anodes st @ [Some (length (onodes st))],
              onodes := onodes st @ [\<lparr>name = ''add'', next_nodes = [node lhs, node r]\<rparr>]\<rparr>)"
          using l r ou lp Inr graph_step [OF ou lB]
          by (simp add: Add_T_def bindM_def [of "elementwise_loop T (c_add T) (data lhs) (data r)
                (data ou) 0 (total_size (shape lhs))"])
        have 2: "Add_T T this rhs out (erase_offsets st) = (Inr (), (erase_offsets st)\<lparr>bufs := B,
              arrays := (arrays (erase_offsets st))[out := ou\<lparr>offset := 0, node := length (anodes st)\<rparr>],
              anodes := anodes st @ [Some (length (onodes st))],
              onodes := onodes st @ [\<lparr>name = ''add'', next_nodes = [node lhs, node r]\<rparr>]\<rparr>)"
          using g lp' Inr graph_step [OF g(3) lB']
          by (simp add: Add_T_def bindM_def [of "elementwise_loop T (c_add T) (data lhs) (data r)
                (data ou) 0 (total_size (shape lhs))"] erase_offsets_def)
        have sw: "ou\<lparr>offset := 0, node := length (anodes st)\<rparr> = ou\<lparr>node := length (anodes st), offset := 0\<rparr>"
          by (rule Array.equality) simp_all
        show ?thesis unfolding 1 2
          by (intro prod_eqI State.equality) (simp_all add: erase_offsets_def map_update sw)
      qed
    qed
  qed
qed

lemma Mul_T_erase:
  "Mul_T T this rhs out (erase_offsets st) =
     (fst (Mul_T T this rhs out st), erase_offsets (snd (Mul_T T this rhs out st)))"
proof (cases "get_array st this")
  case None
  then show ?thesis by (simp add: Mul_T_def get_array_erase)
next
  case l: (Some lhs)
  show ?thesis
  proof (cases "get_array st rhs")
    case None
    with l show ?thesis by (simp add: Mul_T_def get_array_erase)
  next
    case r: (Some r)
    show ?thesis
    proof (cases "get_array st out")
      case None
      with l r show ?thesis by (simp add: Mul_T_def get_array_erase)
    next
      case ou: (Some ou)
      let ?X = "map (\<lambda>a. a\<lparr>offset := 0\<rparr>) (arrays st)"
      obtain res1 B where lp: "elementwise_loop T (c_mul T) (data lhs) (data r) (data ou) 0
            (total_size (shape lhs)) st = (res1, st\<lparr>bufs := B\<rparr>)"
        and lB: "length B = length (bufs st)" by (rule loop_result)
      have lp': "elementwise_loop T (c_mul T) (data lhs) (data r) (data ou) 0
            (total_size (shape lhs)) (erase_offsets st) = (res1, (erase_offsets st)\<lparr>bufs := B\<rparr>)"
        using loop_arrays [where st = st and X = ?X, of T "c_mul T" "data lhs" "data r" "data ou" 0 "total_size (shape lhs)"] lp
        by (simp add: erase_offsets_def)
      have g: "get_array (erase_offsets st) this = Some (lhs\<lparr>offset := 0\<rparr>)"
        "get_array (erase_offsets st) rhs = Some (r\<lparr>offset := 0\<rparr>)"
        "get_array (erase_offsets st) out = Some (ou\<lparr>offset := 0\<rparr>)"
        using l r ou by (simp_all add: get_array_erase)
      have lB': "length B = length (bufs (erase_offsets st))" using lB by (simp add: erase_offsets_def)
      show ?thesis
      proof (cases res1)
        case (Inl e)
        have 1: "Mul_T T this rhs out st = (Inl e, st\<lparr>bufs := B\<rparr>)"
          using l r ou lp Inl
          by (simp add: Mul_T_def bindM_def [of "elementwise_loop T (c_mul T) (data lhs) (data r)
                (data ou) 0 (total_size (shape lhs))"])
        have 2: "Mul_T T this rhs out (erase_offsets st) = (Inl e, (erase_offsets st)\<lparr>bufs := B\<rparr>)"
          using g lp' Inl
          by (simp add: Mul_T_def bindM_def [of "elementwise_loop T (c_mul T) (data lhs) (data r)
                (data ou) 0 (total_size (shape lhs))"])
        show ?thesis unfolding 1 2 by (simp add: erase_offsets_def)
      next
        case (Inr u)
        have 1: "Mul_T T this rhs out st = (Inr (), st\<lparr>bufs := B,
              arrays := (arrays st)[out := ou\<lparr>node := length (anodes st)\<rparr>],
              anodes := anodes st @ [Some (length (onodes st))],
              onodes := onodes st @ [\<lparr>name = ''mul'', next_nodes = [node lhs, node r]\<rparr>]\<rparr>)"
          using l r ou lp Inr graph_step [OF ou lB]
          by (simp add: Mul_T_def bindM_def [of "elementwise_loop T (c_mul T) (data lhs) (data r)
                (data ou) 0 (total_size (shape lhs))"])
        have 2: "Mul_T T this rhs out (erase_offsets st) = (Inr (), (erase_offsets st)\<lparr>bufs := B,
              arrays := (arrays (erase_offsets st))[out := ou\<lparr>offset := 0, node := length (anodes st)\<rparr>],
              anodes := anodes st @ [Some (length (onodes st))],
              onodes := onodes st @ [\<lparr>name = ''mul'', next_nodes = [node lhs, node r]\<rparr>]\<rparr>)"
          using g lp' Inr graph_step [OF g(3) lB']
          by (simp add: Mul_T_def bindM_def [of "elementwise_loop T (c_mul T) (data lhs) (data r)
                (data ou) 0 (total_size (shape lhs))"] erase_offsets_def)
        have sw: "ou\<lparr>offset := 0, node := length (anodes st)\<rparr> = ou\<lparr>node := length (anodes st), offset := 0\<rparr>"
          by (rule Array.equality) simp_all
        show ?thesis unfolding 1 2
          by (intro prod_eqI State.equality) (simp_all add: erase_offsets_def map_update sw)
      qed
    qed
  qed
qed


lemma offset_blindI: "(\<And>st. f (erase_offsets st) = (fst (f st), erase_offsets (snd (f st)))) \<Longrightarrow> offset_blind f"
  by (simp add: offset_blind_def)

lemma offset_blindD: "offset_blind f \<Longrightarrow> f (erase_offsets st) = (fst (f st), erase_offsets (snd (f st)))"
  by (simp add: offset_blind_def)

lemma offset_blind_bind:
  assumes "offset_blind m" "\<And>x. offset_blind (f x)"
  shows "offset_blind (bindM m f)"
proof (rule offset_blindI)
  fix st
  obtain res st1 where m: "m st = (res, st1)" by (metis prod.collapse)
  with offset_blindD [OF assms(1), of st] have m': "m (erase_offsets st) = (res, erase_offsets st1)"
    by simp
  show "bindM m f (erase_offsets st) = (fst (bindM m f st), erase_offsets (snd (bindM m f st)))"
  proof (cases res)
    case (Inl e)
    with m m' show ?thesis by (simp add: bindM_def)
  next
    case (Inr x)
    with m m' offset_blindD [OF assms(2), of x st1] show ?thesis by (simp add: bindM_def)
  qed
qed

lemma offset_blind_return: "offset_blind (\<lambda>st. (res, st))"
  by (simp add: offset_blind_def)

lemma offset_blind_Add_T: "offset_blind (Add_T T this rhs out)"
  by (rule offset_blindI) (rule Add_T_erase)

lemma offset_blind_Mul_T: "offset_blind (Mul_T T this rhs out)"
  by (rule offset_blindI) (rule Mul_T_erase)

lemma offset_blind_make_unique: "offset_blind (make_unique n)"
  by (rule offset_blindI) (simp add: make_unique_def erase_offsets_def)

lemma offset_blind_Array_ctor: "offset_blind (Array_ctor env shp dt dat 0)"
proof (rule offset_blindI)
  fix st
  obtain res st' where c: "Array_ctor env shp dt dat 0 st = (res, st')" by (metis prod.collapse)
  show "Array_ctor env shp dt dat 0 (erase_offsets st) =
      (fst (Array_ctor env shp dt dat 0 st), erase_offsets (snd (Array_ctor env shp dt dat 0 st)))"
    by (intro prod_eqI State.equality)
      (auto simp: Array_ctor_def bindM_def make_ArrayNode_def AllocateCudaManaged_def get_buf_def
        erase_offsets_def Let_def split: if_splits option.splits)
qed

lemma offset_blind_Add_out: "offset_blind (Add_out env this rhs out)"
proof (rule offset_blindI)
  fix st
  show "Add_out env this rhs out (erase_offsets st) =
      (fst (Add_out env this rhs out st), erase_offsets (snd (Add_out env this rhs out st)))"
  proof (cases "get_array st this")
    case None
    then show ?thesis by (simp add: Add_out_def get_array_erase)
  next
    case l: (Some lhs)
    show ?thesis
    proof (cases "get_array st rhs")
      case None
      with l show ?thesis by (simp add: Add_out_def get_array_erase)
    next
      case r: (Some r)
      have g: "get_array (erase_offsets st) this = Some (lhs\<lparr>offset := 0\<rparr>)"
        "get_array (erase_offsets st) rhs = Some (r\<lparr>offset := 0\<rparr>)"
        using l r by (simp_all add: get_array_erase)
      show ?thesis
      proof (cases "dtype lhs \<noteq> dtype r \<or> shape lhs \<noteq> shape r")
        case True
        then have "dtype (lhs\<lparr>offset := 0\<rparr>) \<noteq> dtype (r\<lparr>offset := 0\<rparr>)
            \<or> shape (lhs\<lparr>offset := 0\<rparr>) \<noteq> shape (r\<lparr>offset := 0\<rparr>)" by simp
        from Add_out_mismatch [OF g this, of env out] Add_out_mismatch [OF l r True, of env out]
        show ?thesis by simp
      next
        case False
        then have e: "dtype lhs = dtype r" "shape lhs = shape r" by simp_all
        then have e': "dtype (lhs\<lparr>offset := 0\<rparr>) = dtype (r\<lparr>offset := 0\<rparr>)"
          "shape (lhs\<lparr>offset := 0\<rparr>) = shape (r\<lparr>offset := 0\<rparr>)" by simp_all
        show ?thesis
          unfolding Add_out_dispatch [OF l r e] Add_out_dispatch [OF g e']
          by (cases "dtype lhs") (simp_all add: Add_T_erase)
      qed
    qed
  qed
qed

lemma offset_blind_Mul_out: "offset_blind (Mul_out env this rhs out)"
proof (rule offset_blindI)
  fix st
  show "Mul_out env this rhs out (erase_offsets st) =
      (fst (Mul_out env this rhs out st), erase_offsets (snd (Mul_out env this rhs out st)))"
  proof (cases "get_array st this")
    case None
    then show ?thesis by (simp add: Mul_out_def get_array_erase)
  next
    case l: (Some lhs)
    show ?thesis
    proof (cases "get_array st rhs")
      case None
      with l show ?thesis by (simp add: Mul_out_def get_array_erase)
    next
      case r: (Some r)
      have g: "get_array (erase_offsets st) this = Some (lhs\<lparr>offset := 0\<rparr>)"
        "get_array (erase_offsets st) rhs = Some (r\<lparr>offset := 0\<rparr>)"
        using l r by (simp_all add: get_array_erase)
      show ?thesis
      proof (cases "dtype lhs \<noteq> dtype r \<or> shape lhs \<noteq> shape r")
        case True
        then have "dtype (lhs\<lparr>offset := 0\<rparr>) \<noteq> dtype (r\<lparr>offset := 0\<rparr>)
            \<or> shape (lhs\<lparr>offset := 0\<rparr>) \<noteq> shape (r\<lparr>offset := 0\<rparr>)" by simp
        from Mul_out_mismatch [OF g this, of env out] Mul_out_mismatch [OF l r True, of env out]
        show ?thesis by simp
      next
        case False
        then have e: "dtype lhs = dtype r" "shape lhs = shape r" by simp_all
        then have e': "dtype (lhs\<lparr>offset := 0\<rparr>) = dtype (r\<lparr>offset := 0\<rparr>)"
          "shape (lhs\<lparr>offset := 0\<rparr>) = shape (r\<lparr>offset := 0\<rparr>)" by simp_all
        show ?thesis
          unfolding Mul_out_dispatch [OF l r e] Mul_out_dispatch [OF g e']
          by (cases "dtype lhs") (simp_all add: Mul_T_erase)
      qed
    qed
  qed
qed

lemma offset_blind_IAdd: "offset_blind (IAdd env this rhs)"
  unfolding IAdd_def by (intro offset_blind_bind offset_blind_Add_out offset_blind_return)

lemma offset_blind_IMul: "offset_blind (IMul env this rhs)"
  unfolding IMul_def by (intro offset_blind_bind offset_blind_Mul_out offset_blind_return)

lemma offset_blind_Add: "offset_blind (Add env this rhs)"
proof (rule offset_blindI)
  fix st
  show "Add env this rhs (erase_offsets st) = (fst (Add env this rhs st), erase_offsets (snd (Add env this rhs st)))"
  proof (cases "get_array st this")
    case None
    then show ?thesis by (simp add: Add_def get_array_erase)
  next
    case (Some lhs)
    let ?f = "bindM (make_unique (total_bytes lhs)) (\<lambda>p.
          bindM (Array_ctor env (shape lhs) (dtype lhs) p 0) (\<lambda>out.
          bindM (Add_out env this rhs out) (\<lambda>_ st'. (Inr out, st'))))"
    have "offset_blind ?f"
      by (intro offset_blind_bind offset_blind_make_unique offset_blind_Array_ctor
          offset_blind_Add_out offset_blind_return)
    from offset_blindD [OF this, of st] Some show ?thesis
      by (simp add: Add_def get_array_erase total_bytes_def)
  qed
qed

lemma offset_blind_Mul: "offset_blind (Mul env this rhs)"
proof (rule offset_blindI)
  fix st
  show "Mul env this rhs (erase_offsets st) = (fst (Mul env this rhs st), erase_offsets (snd (Mul env this rhs st)))"
  proof (cases "get_array st this")
    case None
    then show ?thesis by (simp add: Mul_def get_array_erase)
  next
    case (Some lhs)
    let ?f = "bindM (make_unique (total_bytes lhs)) (\<lambda>p.
          bindM (Array_ctor env (shape lhs) (dtype lhs) p 0) (\<lambda>out.
          bindM (Mul_out env this rhs out) (\<lambda>_ st'. (Inr out, st'))))"
    have "offset_blind ?f"
      by (intro offset_blind_bind offset_blind_make_unique offset_blind_Array_ctor
          offset_blind_Mul_out offset_blind_return)
    from offset_blindD [OF this, of st] Some show ?thesis
      by (simp add: Mul_def get_array_erase total_bytes_def)
  qed
qed

lemma offset_blind_two:
  assumes "offset_blind f" "erase_offsets st1 = erase_offsets st2"
  shows "fst (f st1) = fst (f st2) \<and> erase_offsets (snd (f st1)) = erase_offsets (snd (f st2))"
proof -
  have "f (erase_offsets st1) = (fst (f st1), erase_offsets (snd (f st1)))"
    "f (erase_offsets st2) = (fst (f st2), erase_offsets (snd (f st2)))"
    using offset_blindD [OF assms(1)] by simp_all
  with assms(2) show ?thesis by simp
qed

lemma Array_ctor_cuda_copy:
  assumes "device st = Cuda" "Array_ctor env shp dt dat off st = (Inr c, st')"
  shows "in_buffer st dat (total_size shp * GetElementSize dt) \<and>
     bufs st' = bufs st @ [take (total_size shp * GetElementSize dt) (bytes_at st dat)] \<and>
     get_array st' c = Some \<lparr>shape = shp, is_contiguous = True, dtype = dt,
        data = (length (bufs st), 0), offset = off, node = length (anodes st)\<rparr>"
  using assms
  by (auto simp: Array_ctor_def bindM_def make_ArrayNode_def AllocateCudaManaged_def get_buf_def
      get_array_def in_buffer_def bytes_at_def Let_def split: if_splits option.splits)

lemma offset_blind_bufs:
  assumes "offset_blind f" "erase_offsets st1 = erase_offsets st2"
  shows "fst (f st1) = fst (f st2) \<and> bufs (snd (f st1)) = bufs (snd (f st2)) \<and>
     erase_offsets (snd (f st1)) = erase_offsets (snd (f st2))"
proof -
  from offset_blind_two [OF assms] have 1: "fst (f st1) = fst (f st2)"
    and 2: "erase_offsets (snd (f st1)) = erase_offsets (snd (f st2))" by simp_all
  from 2 have "bufs (erase_offsets (snd (f st1))) = bufs (erase_offsets (snd (f st2)))" by simp
  then have "bufs (snd (f st1)) = bufs (snd (f st2))" by (simp add: erase_offsets_def)
  with 1 2 show ?thesis by simp
qed

text \<open>
  C10. Two stores that differ only in the offsets of their Arrays give, for each of
  \<^verbatim>\<open>Add\<close>, \<^verbatim>\<open>Mul\<close>, \<^verbatim>\<open>IAdd\<close>, \<^verbatim>\<open>IMul\<close>, \<^verbatim>\<open>Add(rhs, out)\<close> and \<^verbatim>\<open>Mul(rhs, out)\<close>, the same
  value or exception, the same buffers, and stores that again differ only in offsets:
  the kernels read and write from the data pointer of each Array whatever the offsets
  are. A construction on the CUDA device that returns has copied the
  \<open>total_size * element size\<close> bytes at the source pointer it was given, whatever
  offset it was given; the offset is only stored in the new \<^verbatim>\<open>Array\<close>.
\<close>

theorem offset_has_no_effect:
  assumes "erase_offsets st1 = erase_offsets st2"
  shows "(fst (Add env a b st1) = fst (Add env a b st2) \<and>
          bufs (snd (Add env a b st1)) = bufs (snd (Add env a b st2)) \<and>
          erase_offsets (snd (Add env a b st1)) = erase_offsets (snd (Add env a b st2))) \<and>
         (fst (Mul env a b st1) = fst (Mul env a b st2) \<and>
          bufs (snd (Mul env a b st1)) = bufs (snd (Mul env a b st2)) \<and>
          erase_offsets (snd (Mul env a b st1)) = erase_offsets (snd (Mul env a b st2))) \<and>
         (fst (IAdd env a b st1) = fst (IAdd env a b st2) \<and>
          bufs (snd (IAdd env a b st1)) = bufs (snd (IAdd env a b st2)) \<and>
          erase_offsets (snd (IAdd env a b st1)) = erase_offsets (snd (IAdd env a b st2))) \<and>
         (fst (IMul env a b st1) = fst (IMul env a b st2) \<and>
          bufs (snd (IMul env a b st1)) = bufs (snd (IMul env a b st2)) \<and>
          erase_offsets (snd (IMul env a b st1)) = erase_offsets (snd (IMul env a b st2))) \<and>
         (fst (Add_out env a b out st1) = fst (Add_out env a b out st2) \<and>
          bufs (snd (Add_out env a b out st1)) = bufs (snd (Add_out env a b out st2)) \<and>
          erase_offsets (snd (Add_out env a b out st1)) = erase_offsets (snd (Add_out env a b out st2))) \<and>
         (fst (Mul_out env a b out st1) = fst (Mul_out env a b out st2) \<and>
          bufs (snd (Mul_out env a b out st1)) = bufs (snd (Mul_out env a b out st2)) \<and>
          erase_offsets (snd (Mul_out env a b out st1)) = erase_offsets (snd (Mul_out env a b out st2))) \<and>
         (device st = Cuda \<and> Array_ctor env shp dt dat off st = (Inr c, st') \<longrightarrow>
            in_buffer st dat (total_size shp * GetElementSize dt) \<and>
            bufs st' = bufs st @ [take (total_size shp * GetElementSize dt) (bytes_at st dat)] \<and>
            get_array st' c = Some \<lparr>shape = shp, is_contiguous = True, dtype = dt,
               data = (length (bufs st), 0), offset = off, node = length (anodes st)\<rparr>)"
  using offset_blind_bufs [OF offset_blind_Add assms, of env a b]
    offset_blind_bufs [OF offset_blind_Mul assms, of env a b]
    offset_blind_bufs [OF offset_blind_IAdd assms, of env a b]
    offset_blind_bufs [OF offset_blind_IMul assms, of env a b]
    offset_blind_bufs [OF offset_blind_Add_out assms, of env a b out]
    offset_blind_bufs [OF offset_blind_Mul_out assms, of env a b out]
    Array_ctor_cuda_copy [of st env shp dt dat off c st']
  by blast

theorem offset_has_no_effect_witness:
  "erase_offsets ex_st = erase_offsets ex_st_off \<and> ex_st \<noteq> ex_st_off \<and>
   device ex_st_cuda = Cuda \<and>
   Array_ctor ex_env_cuda [2] kInt32 (0, 0) 4 ex_st_cuda
     = (Inr 2, snd (Array_ctor ex_env_cuda [2] kInt32 (0, 0) 4 ex_st_cuda)) \<and>
   fst (Add ex_env_cuda 0 1 ex_st) = Inr 2 \<and>
   fst (Add ex_env_cuda 0 1 ex_st) = fst (Add ex_env_cuda 0 1 ex_st_off) \<and>
   bufs (snd (Add ex_env_cuda 0 1 ex_st)) = bufs (snd (Add ex_env_cuda 0 1 ex_st_off)) \<and>
   fst (IMul ex_env_cuda 0 1 ex_st) = fst (IMul ex_env_cuda 0 1 ex_st_off) \<and>
   bufs (snd (IMul ex_env_cuda 0 1 ex_st)) = bufs (snd (IMul ex_env_cuda 0 1 ex_st_off)) \<and>
   bufs (snd (Array_ctor ex_env_cuda [2] kInt32 (0, 0) 4 ex_st_cuda))
     = bufs ex_st_cuda @ [take (total_size [2] * GetElementSize kInt32) (bytes_at ex_st_cuda (0, 0))] \<and>
   take (total_size [2] * GetElementSize kInt32) (bytes_at ex_st_cuda (0, 0)) = [1, 0, 0, 0, 2, 0, 0, 0]"
proof -
  have h: "erase_offsets ex_st = erase_offsets ex_st_off"
    by (simp add: erase_offsets_def ex_st_off_def ex_st_def)
  have ne: "ex_st \<noteq> ex_st_off"
  proof
    assume "ex_st = ex_st_off"
    then have "arrays ex_st = arrays ex_st_off" by simp
    then show False by (simp add: ex_st_def ex_st_off_def ex_a_def)
  qed
  have d: "device ex_st_cuda = Cuda" by (simp add: ex_st_cuda_def)
  have "fst (Array_ctor ex_env_cuda [2] kInt32 (0, 0) 4 ex_st_cuda) = Inr 2" by code_simp
  then have c: "Array_ctor ex_env_cuda [2] kInt32 (0, 0) 4 ex_st_cuda
     = (Inr 2, snd (Array_ctor ex_env_cuda [2] kInt32 (0, 0) 4 ex_st_cuda))"
    by (metis prod.collapse)
  have v: "fst (Add ex_env_cuda 0 1 ex_st) = Inr 2" by code_simp
  have b: "take (total_size [2] * GetElementSize kInt32) (bytes_at ex_st_cuda (0, 0))
      = [1, 0, 0, 0, 2, 0, 0, 0]"
    by code_simp
  from offset_has_no_effect [OF h, of ex_env_cuda 0 1 0 ex_st_cuda "[2]" kInt32 "(0, 0)" 4 2
      "snd (Array_ctor ex_env_cuda [2] kInt32 (0, 0) 4 ex_st_cuda)"] h ne d c v b
  show ?thesis by blast
qed


subsection \<open>Identities of IEEE 754 arithmetic\<close>

lemma bitlen_le: "bitlen n \<le> k \<longleftrightarrow> n < 2 ^ k"
proof (induction k arbitrary: n)
  case 0
  show ?case by (subst bitlen.simps) simp
next
  case (Suc k)
  have "bitlen n \<le> Suc k \<longleftrightarrow> n = 0 \<or> bitlen (n div 2) \<le> k"
    by (subst bitlen.simps) simp
  also have "\<dots> \<longleftrightarrow> n = 0 \<or> n div 2 < 2 ^ k" by (simp add: Suc.IH)
  also have "\<dots> \<longleftrightarrow> n < 2 ^ Suc k" by auto
  finally show ?case .
qed

lemma bitlen_eq:
  assumes "2 ^ l \<le> n" "n < 2 ^ Suc l"
  shows "bitlen n = Suc l"
proof -
  from assms(2) have "bitlen n \<le> Suc l" by (simp only: bitlen_le)
  moreover from assms(1) have "\<not> n < 2 ^ l" by simp
  then have "\<not> bitlen n \<le> l" by (simp add: bitlen_le)
  ultimately show ?thesis by simp
qed

lemma fp_pack_unpack:
  assumes "x < 2 ^ (p + w)" "0 < p"
  shows "fp_pack p w (fp_sign p w x) (fp_exp p w x) (fp_frac p x) = x"
proof -
  from assms have "x < 2 ^ (p - 1 + w) * 2" by (cases p) (simp_all add: mult.commute)
  then have "x div 2 ^ (p - 1 + w) < 2" by (simp add: less_mult_imp_div_less)
  then have s: "fp_sign p w x = x div 2 ^ (p - 1 + w)" by (simp add: fp_sign_def)
  have "x mod 2 ^ (p - 1 + w) = 2 ^ (p - 1) * (x div 2 ^ (p - 1) mod 2 ^ w) + x mod 2 ^ (p - 1)"
    by (simp add: power_add mod_mult2_eq)
  then have "fp_exp p w x * 2 ^ (p - 1) + fp_frac p x = x mod 2 ^ (p - 1 + w)"
    by (simp add: fp_exp_def fp_frac_def mult.commute)
  moreover have "x div 2 ^ (p - 1 + w) * 2 ^ (p - 1 + w) + x mod 2 ^ (p - 1 + w) = x"
    by (rule div_mult_mod_eq)
  ultimately show ?thesis
    unfolding fp_pack_def s by linarith
qed

lemma fp_frac_less: "0 < p \<Longrightarrow> fp_frac p x < 2 ^ (p - 1)"
  by (simp add: fp_frac_def)

lemma fp_sign_cases: "fp_sign p w x = 0 \<or> fp_sign p w x = 1"
  by (auto simp: fp_sign_def)

text \<open>Rounding a value that is a floating-point number yields that number.\<close>

lemma fp_round_exact:
  assumes p: "2 \<le> p" and e: "fp_exp p w x < 2 ^ w - 1" and nz: "\<not> fp_zero p w x"
  shows "fp_round p w s (fp_mag p w x * 2 ^ g) g = fp_pack p w s (fp_exp p w x) (fp_frac p x)"
proof (cases "fp_exp p w x = 0")
  case True
  let ?f = "fp_frac p x"
  from True nz have f0: "0 < ?f" by (simp add: fp_zero_def)
  have fl: "?f < 2 ^ (p - 1)" using p by (intro fp_frac_less) simp
  have N: "fp_mag p w x * 2 ^ g = ?f * 2 ^ g" using True by (simp add: fp_mag_def)
  have "?f * 2 ^ g < 2 ^ (p - 1) * 2 ^ g" using fl by simp
  then have "?f * 2 ^ g < 2 ^ (p - 1 + g)" by (simp add: power_add)
  then have "bitlen (?f * 2 ^ g) \<le> p - 1 + g" by (simp only: bitlen_le)
  then have q: "max (bitlen (?f * 2 ^ g) - p) g = g" using p by simp
  have ne: "?f \<noteq> 2 ^ p"
  proof
    assume "?f = 2 ^ p"
    with fl have "(2::nat) ^ p < 2 ^ (p - 1)" by simp
    then show False by simp
  qed
  show ?thesis
    unfolding fp_round_def N q using fl ne True by (simp add: Let_def)
next
  case False
  let ?f = "fp_frac p x"
  let ?m = "?f + 2 ^ (p - 1)"
  let ?k = "fp_exp p w x - 1"
  have fl: "?f < 2 ^ (p - 1)" using p by (intro fp_frac_less) simp
  have pp: "(2::nat) ^ p = 2 ^ (p - 1) + 2 ^ (p - 1)"
    using p by (cases p) simp_all
  have ml: "?m < 2 ^ p" using fl pp by simp
  have mg: "2 ^ (p - 1) \<le> ?m" by simp
  have "fp_mag p w x = ?m * 2 ^ ?k" using False by (simp add: fp_mag_def)
  then have N: "fp_mag p w x * 2 ^ g = ?m * 2 ^ (?k + g)"
    by (simp only: power_add mult.assoc)
  have "2 ^ (p - 1) * 2 ^ (?k + g) \<le> ?m * 2 ^ (?k + g)" using mg by (intro mult_le_mono1)
  then have lo: "2 ^ (p - 1 + ?k + g) \<le> ?m * 2 ^ (?k + g)" by (simp add: power_add mult.assoc)
  have "?m * 2 ^ (?k + g) < 2 ^ p * 2 ^ (?k + g)" using ml by simp
  then have hi: "?m * 2 ^ (?k + g) < 2 ^ Suc (p - 1 + ?k + g)"
    using p by (simp add: power_add pp mult.assoc algebra_simps)
  have "bitlen (?m * 2 ^ (?k + g)) = Suc (p - 1 + ?k + g)" by (rule bitlen_eq [OF lo hi])
  then have q: "max (bitlen (?m * 2 ^ (?k + g)) - p) g = ?k + g" using p by simp
  have ne: "?m \<noteq> 2 ^ p" using ml by simp
  have ke: "Suc ?k = fp_exp p w x" using False by simp
  have nlt: "\<not> ?m < 2 ^ (p - 1)" by simp
  show ?thesis
    unfolding fp_round_def N q using ne nlt e ke by (simp add: Let_def)
qed

lemma fp_mag_zero:
  "fp_mag p w x = 0 \<longleftrightarrow> fp_zero p w x"
  by (auto simp: fp_mag_def fp_zero_def)

lemma fp_zero_0: "fp_exp p w 0 = 0" "fp_frac p 0 = 0" "fp_sign p w 0 = 0" "fp_mag p w 0 = 0"
  "\<not> fp_nan p w 0" 
  by (simp_all add: fp_exp_def fp_frac_def fp_sign_def fp_mag_def fp_nan_def)


text \<open>\<open>x + (+0)\<close> is \<open>x\<close>, except that \<open>-0 + (+0)\<close> is \<open>+0\<close>.\<close>

lemma fp_add_zero:
  assumes p: "2 \<le> p" and w: "2 \<le> w" and x: "x < 2 ^ (p + w)" and nn: "\<not> fp_nan p w x"
  shows "fp_add p w x 0 = (if fp_zero p w x then 0 else x)"
proof -
  have w1: "(1::nat) < 2 ^ w" using w by (intro one_less_power) simp_all
  have ni0: "\<not> fp_inf p w 0" using w1 by (auto simp: fp_inf_def fp_exp_def)
  show ?thesis
  proof (cases "fp_inf p w x")
    case True
    then have "\<not> fp_zero p w x" using w1 by (auto simp: fp_inf_def fp_zero_def)
    with True nn ni0 show ?thesis by (simp add: fp_add_def fp_zero_0)
  next
    case False
    with nn have "fp_exp p w x \<noteq> 2 ^ w - 1" by (auto simp: fp_nan_def fp_inf_def)
    moreover have "fp_exp p w x < 2 ^ w" by (simp add: fp_exp_def)
    ultimately have e: "fp_exp p w x < 2 ^ w - 1" by simp
    show ?thesis
    proof (cases "fp_zero p w x")
      case True
      then have "fp_mag p w x = 0" by (simp add: fp_mag_zero)
      with True False nn ni0 show ?thesis by (simp add: fp_add_def fp_zero_0)
    next
      case nz: False
      then have m: "0 < fp_mag p w x" using fp_mag_zero [of p w x] by simp
      from fp_round_exact [OF p e nz, of _ 0]
      have r: "fp_round p w s (fp_mag p w x) 0 = fp_pack p w s (fp_exp p w x) (fp_frac p x)" for s
        by simp
      have "fp_add p w x 0 = fp_round p w (fp_sign p w x) (fp_mag p w x) 0"
        using nn False ni0 m fp_sign_cases [of p w x]
        by (auto simp: fp_add_def fp_zero_0 Let_def)
      also have "\<dots> = x" unfolding r using fp_pack_unpack [OF x] p by simp
      finally show ?thesis using nz by simp
    qed
  qed
qed

text \<open>\<open>x * 1\<close> is \<open>x\<close>.\<close>

lemma fp_mul_one:
  assumes p: "2 \<le> p" and w: "2 \<le> w" and x: "x < 2 ^ (p + w)" and nn: "\<not> fp_nan p w x"
  shows "fp_mul p w x (fp_pack p w 0 (2 ^ (w - 1) - 1) 0) = x"
proof -
  define b :: nat where "b = 2 ^ (w - 1) - 1"
  define one where "one = fp_pack p w 0 b 0"
  have ww: "(2::nat) ^ w = 2 ^ (w - 1) + 2 ^ (w - 1)" using w by (cases w) simp_all
  have "(2::nat) ^ 1 \<le> 2 ^ (w - 1)" using w by (intro power_increasing) simp_all
  then have b2: "(2::nat) \<le> 2 ^ (w - 1)" by simp
  have bb: "(2::nat) ^ (w - 1) = b + 1" using b2 by (simp add: b_def)
  have b1: "1 \<le> b" using b2 bb by simp
  have blt: "b < 2 ^ w - 1" "b < 2 ^ w" using ww bb by simp_all
  have one: "one = b * 2 ^ (p - 1)" by (simp add: one_def fp_pack_def)
  have oe: "fp_exp p w one = b" using blt by (simp add: one fp_exp_def)
  have of': "fp_frac p one = 0" by (simp add: one fp_frac_def)
  have "b * 2 ^ (p - 1) < 2 ^ w * 2 ^ (p - 1)" using blt by simp
  then have "one < 2 ^ (p - 1 + w)" by (simp add: one power_add mult.commute)
  then have os: "fp_sign p w one = 0" by (simp add: fp_sign_def)
  have on: "\<not> fp_nan p w one" "\<not> fp_inf p w one" "\<not> fp_zero p w one"
    using blt b1 by (simp_all add: fp_nan_def fp_inf_def fp_zero_def oe of')
  have g: "2 ^ (w - 1) + p - 3 = p - 1 + (b - 1)" using p b1 bb by simp
  have om: "fp_mag p w one = 2 ^ (2 ^ (w - 1) + p - 3)"
  proof -
    have "fp_mag p w one = 2 ^ (p - 1) * 2 ^ (b - 1)" using b1 by (simp add: fp_mag_def oe of')
    also have "\<dots> = 2 ^ (p - 1 + (b - 1))" by (simp only: power_add)
    finally show ?thesis by (simp only: g)
  qed
  have sx: "fp_sign p w x mod 2 = fp_sign p w x" using fp_sign_cases [of p w x] by auto
  have w1: "(1::nat) < 2 ^ w" using w by (intro one_less_power) simp_all
  have "fp_mul p w x one = x"
  proof (cases "fp_inf p w x")
    case True
    then have "fp_pack p w (fp_sign p w x) (2 ^ w - 1) 0 = x"
      using fp_pack_unpack [OF x] p by (simp add: fp_inf_def)
    moreover from True have "\<not> fp_zero p w x" using w1 by (auto simp: fp_inf_def fp_zero_def)
    ultimately show ?thesis using True nn on by (simp add: fp_mul_def os sx)
  next
    case False
    with nn have "fp_exp p w x \<noteq> 2 ^ w - 1" by (auto simp: fp_nan_def fp_inf_def)
    moreover have "fp_exp p w x < 2 ^ w" by (simp add: fp_exp_def)
    ultimately have e: "fp_exp p w x < 2 ^ w - 1" by simp
    show ?thesis
    proof (cases "fp_zero p w x")
      case True
      then have "fp_pack p w (fp_sign p w x) 0 0 = x"
        using fp_pack_unpack [OF x] p by (simp add: fp_zero_def)
      with True False nn on show ?thesis by (simp add: fp_mul_def os sx)
    next
      case nz: False
      have "fp_mul p w x one = fp_round p w (fp_sign p w x)
          (fp_mag p w x * 2 ^ (2 ^ (w - 1) + p - 3)) (2 ^ (w - 1) + p - 3)"
        using nn False nz on by (simp add: fp_mul_def os sx om Let_def)
      also have "\<dots> = fp_pack p w (fp_sign p w x) (fp_exp p w x) (fp_frac p x)"
        by (rule fp_round_exact [OF p e nz])
      also have "\<dots> = x" using fp_pack_unpack [OF x] p by simp
      finally show ?thesis .
    qed
  qed
  then show ?thesis by (simp add: one_def b_def)
qed


text \<open>Whether a bit pattern is a NaN depends on its low \<open>p + w\<close> bits only.\<close>

lemma fp_nan_mod:
  assumes "0 < p"
  shows "fp_nan p w (r mod 2 ^ (p + w)) = fp_nan p w r"
proof -
  have pw: "p + w = (p - 1) + Suc w" using assms by simp
  have "(r mod 2 ^ (p + w)) div 2 ^ (p - 1) = (r div 2 ^ (p - 1)) mod 2 ^ Suc w"
    unfolding pw power_add by (simp add: mod_mult2_eq)
  then have e: "fp_exp p w (r mod 2 ^ (p + w)) = fp_exp p w r"
    unfolding fp_exp_def by (simp add: mod_mod_cancel)
  have "(2::nat) ^ (p - 1) dvd 2 ^ (p + w)" by (intro le_imp_power_dvd) simp
  then have f: "fp_frac p (r mod 2 ^ (p + w)) = fp_frac p r"
    unfolding fp_frac_def by (rule mod_mod_cancel)
  show ?thesis by (simp add: fp_nan_def e f)
qed

lemma fp_nan_word:
  assumes "LENGTH('a::len) = p + w" "0 < p"
  shows "fp_nan p w (unat (word_of_nat r :: 'a word)) = fp_nan p w r"
  using fp_nan_mod [OF assms(2), of w r] assms(1) by (simp add: unat_of_nat)

lemma fp_agrees_standard:
  assumes "LENGTH('a::len) = p + w" "0 < p"
  shows "fp_agrees p w op (\<lambda>x y. word_of_nat (op (unat x) (unat y)) :: 'a word)"
  using fp_nan_word [OF assms] by (simp add: fp_agrees_def)

lemma ieee_fpu_ieee_env: "ieee_fpu ieee_env"
  by (simp add: ieee_fpu_def ieee_env_def fp_agrees_standard)

text \<open>A zero is \<open>+0\<close> or \<open>-0\<close>.\<close>

lemma fp_zero_cases:
  assumes "x < 2 ^ (p + w)" "0 < p" "fp_zero p w x"
  shows "x = 0 \<or> x = 2 ^ (p - 1 + w)"
proof -
  from fp_pack_unpack [OF assms(1,2)] assms(3)
  have "x = fp_sign p w x * 2 ^ (p - 1 + w)" by (simp add: fp_zero_def fp_pack_def)
  with fp_sign_cases [of p w x] show ?thesis by auto
qed

text \<open>
  On a machine that agrees with the standard, \<open>x + (+0)\<close> is \<open>x\<close> for every \<open>x\<close> that is
  not a NaN, except that \<open>-0 + (+0)\<close> is \<open>+0\<close>; and \<open>x * 1\<close> is \<open>x\<close>.
\<close>

lemma machine_add_zero:
  fixes x :: "'a::len word"
  assumes ag: "fp_agrees p w (fp_add p w) f"
    and "2 \<le> p" "2 \<le> w" "LENGTH('a) = p + w" and nn: "\<not> fp_nan p w (unat x)"
  shows "f x 0 = (if fp_zero p w (unat x) then 0 else x)"
proof -
  have x: "unat x < 2 ^ (p + w)" using unsigned_less [of x] assms(4) by simp
  have r: "fp_add p w (unat x) (unat (0 :: 'a word)) = (if fp_zero p w (unat x) then 0 else unat x)"
    using fp_add_zero [OF assms(2,3) x nn] by simp
  have "\<not> fp_nan p w (fp_add p w (unat x) (unat (0 :: 'a word)))"
    unfolding r using nn by (simp add: fp_zero_0)
  with ag have "f x 0 = word_of_nat (fp_add p w (unat x) (unat (0 :: 'a word)))"
    unfolding fp_agrees_def by metis
  then show ?thesis unfolding r by simp
qed

lemma machine_mul_one:
  fixes x one :: "'a::len word"
  assumes ag: "fp_agrees p w (fp_mul p w) f"
    and "2 \<le> p" "2 \<le> w" "LENGTH('a) = p + w" and nn: "\<not> fp_nan p w (unat x)"
    and one: "unat one = fp_pack p w 0 (2 ^ (w - 1) - 1) 0"
  shows "f x one = x"
proof -
  have x: "unat x < 2 ^ (p + w)" using unsigned_less [of x] assms(4) by simp
  have r: "fp_mul p w (unat x) (unat one) = unat x"
    using fp_mul_one [OF assms(2,3) x nn] one by simp
  have "\<not> fp_nan p w (fp_mul p w (unat x) (unat one))"
    unfolding r using nn .
  with ag have "f x one = word_of_nat (fp_mul p w (unat x) (unat one))"
    unfolding fp_agrees_def by metis
  then show ?thesis unfolding r by simp
qed

lemma float_add_zero:
  assumes "ieee_fpu env" "\<not> fp_nan 24 8 (unat x)"
  shows "fp_eq 24 8 (unat (float_add env x 0)) (unat x)"
    and "x \<noteq> 0x80000000 \<Longrightarrow> float_add env x 0 = x"
proof -
  from assms(1) have ag: "fp_agrees 24 8 (fp_add 24 8) (float_add env)" by (simp add: ieee_fpu_def)
  have r: "float_add env x 0 = (if fp_zero 24 8 (unat x) then 0 else x)"
    by (rule machine_add_zero [OF ag _ _ _ assms(2)]) simp_all
  show "fp_eq 24 8 (unat (float_add env x 0)) (unat x)"
    unfolding r using assms(2) by (simp add: fp_eq_def fp_zero_0 fp_zero_def)
  show "float_add env x 0 = x" if ne: "x \<noteq> 0x80000000"
  proof (cases "fp_zero 24 8 (unat x)")
    case False
    then show ?thesis by (simp add: r)
  next
    case True
    have "unat x < 2 ^ (24 + 8)" using unsigned_less [of x] by simp
    from fp_zero_cases [OF this _ True] have "unat x = 0 \<or> unat x = 2 ^ 31" by simp
    moreover have "unat x \<noteq> 2 ^ 31"
    proof
      assume "unat x = 2 ^ 31"
      then have "word_of_nat (unat x) = (word_of_nat (2 ^ 31) :: 32 word)" by simp
      with ne show False by simp
    qed
    ultimately have "x = 0" by (simp add: unat_eq_0)
    moreover from True have "float_add env x 0 = 0" by (simp add: r)
    ultimately show ?thesis by simp
  qed
qed

lemma double_add_zero:
  assumes "ieee_fpu env" "\<not> fp_nan 53 11 (unat x)"
  shows "fp_eq 53 11 (unat (double_add env x 0)) (unat x)"
    and "x \<noteq> 0x8000000000000000 \<Longrightarrow> double_add env x 0 = x"
proof -
  from assms(1) have ag: "fp_agrees 53 11 (fp_add 53 11) (double_add env)" by (simp add: ieee_fpu_def)
  have r: "double_add env x 0 = (if fp_zero 53 11 (unat x) then 0 else x)"
    by (rule machine_add_zero [OF ag _ _ _ assms(2)]) simp_all
  show "fp_eq 53 11 (unat (double_add env x 0)) (unat x)"
    unfolding r using assms(2) by (simp add: fp_eq_def fp_zero_0 fp_zero_def)
  show "double_add env x 0 = x" if ne: "x \<noteq> 0x8000000000000000"
  proof (cases "fp_zero 53 11 (unat x)")
    case False
    then show ?thesis by (simp add: r)
  next
    case True
    have "unat x < 2 ^ (53 + 11)" using unsigned_less [of x] by simp
    from fp_zero_cases [OF this _ True] have "unat x = 0 \<or> unat x = 2 ^ 63" by simp
    moreover have "unat x \<noteq> 2 ^ 63"
    proof
      assume "unat x = 2 ^ 63"
      then have "word_of_nat (unat x) = (word_of_nat (2 ^ 63) :: 64 word)" by simp
      with ne show False by simp
    qed
    ultimately have "x = 0" by (simp add: unat_eq_0)
    moreover from True have "double_add env x 0 = 0" by (simp add: r)
    ultimately show ?thesis by simp
  qed
qed

lemma float_mul_one:
  assumes "ieee_fpu env" "\<not> fp_nan 24 8 (unat x)"
  shows "float_mul env x 0x3F800000 = x"
proof -
  from assms(1) have ag: "fp_agrees 24 8 (fp_mul 24 8) (float_mul env)" by (simp add: ieee_fpu_def)
  show ?thesis
    by (rule machine_mul_one [OF ag _ _ _ assms(2)]) (simp_all add: fp_pack_def)
qed

lemma double_mul_one:
  assumes "ieee_fpu env" "\<not> fp_nan 53 11 (unat x)"
  shows "double_mul env x 0x3FF0000000000000 = x"
proof -
  from assms(1) have ag: "fp_agrees 53 11 (fp_mul 53 11) (double_mul env)" by (simp add: ieee_fpu_def)
  show ?thesis
    by (rule machine_mul_one [OF ag _ _ _ assms(2)]) (simp_all add: fp_pack_def)
qed

text \<open>
  Adding the zero of the dtype gives back every element, as the comparison \<^verbatim>\<open>==\<close> sees
  it, and bit for bit where no element is \<open>-0.0\<close>; multiplying by the one of the dtype
  gives back every element bit for bit.
\<close>

lemma sum_zero_same:
  assumes "dt = kFloat32 \<or> dt = kFloat64 \<longrightarrow> ieee_fpu env"
    and "is_sum env dt ba bz bo n" "zero_filled env dt bz n" "no_nan env dt ba n"
  shows "same_elems env dt bo ba n"
proof (cases dt)
  case kFloat32
  with assms show ?thesis
    by (simp add: is_sum_def zero_filled_def no_nan_def same_elems_def float_add_zero(1))
next
  case kFloat64
  with assms show ?thesis
    by (simp add: is_sum_def zero_filled_def no_nan_def same_elems_def double_add_zero(1))
qed (use assms in \<open>simp_all add: is_sum_def zero_filled_def same_elems_def\<close>)

lemma sum_zero_identical:
  assumes "dt = kFloat32 \<or> dt = kFloat64 \<longrightarrow> ieee_fpu env"
    and "is_sum env dt ba bz bo n" "zero_filled env dt bz n" "no_nan env dt ba n"
    and "no_neg_zero env dt ba n"
  shows "identical_elems env dt bo ba n"
proof (cases dt)
  case kFloat32
  with assms show ?thesis
    by (simp add: is_sum_def zero_filled_def no_nan_def no_neg_zero_def identical_elems_def
        float_add_zero(2))
next
  case kFloat64
  with assms show ?thesis
    by (simp add: is_sum_def zero_filled_def no_nan_def no_neg_zero_def identical_elems_def
        double_add_zero(2))
qed (use assms in \<open>simp_all add: is_sum_def zero_filled_def identical_elems_def\<close>)

lemma product_one_identical:
  assumes "dt = kFloat32 \<or> dt = kFloat64 \<longrightarrow> ieee_fpu env"
    and "is_product env dt ba bz bo n" "one_filled env dt bz n" "no_nan env dt ba n"
  shows "identical_elems env dt bo ba n"
proof (cases dt)
  case kFloat32
  with assms show ?thesis
    by (simp add: is_product_def one_filled_def no_nan_def identical_elems_def float_mul_one)
next
  case kFloat64
  with assms show ?thesis
    by (simp add: is_product_def one_filled_def no_nan_def identical_elems_def double_mul_one)
qed (use assms in \<open>simp_all add: is_product_def one_filled_def identical_elems_def\<close>)

lemma identical_same:
  assumes "identical_elems env dt bo ba n" "no_nan env dt ba n"
  shows "same_elems env dt bo ba n"
  using assms
  by (cases dt) (simp_all add: identical_elems_def same_elems_def no_nan_def fp_eq_def)

lemma ex_float_facts:
  "get_array ex_nan 0 = Some ex_f0" "get_array ex_nan 1 = Some ex_f1" "get_array ex_nan 2 = Some ex_f2"
  "get_array ex_flt 0 = Some ex_f0" "get_array ex_flt 1 = Some ex_f1" "get_array ex_flt 2 = Some ex_f2"
  "get_array ex_negz 0 = Some ex_f0" "get_array ex_negz 1 = Some ex_f1" "get_array ex_negz 2 = Some ex_f2"
  "shape ex_f0 = shape ex_f1" "dtype ex_f0 = dtype ex_f1"
  "shape ex_f0 = shape ex_f2" "dtype ex_f0 = dtype ex_f2"
  "wf_array ex_nan ex_f0" "wf_array ex_nan ex_f1" "wf_array ex_nan ex_f2"
  "wf_array ex_flt ex_f0" "wf_array ex_flt ex_f1" "wf_array ex_flt ex_f2"
  "wf_array ex_negz ex_f0" "wf_array ex_negz ex_f1" "wf_array ex_negz ex_f2"
  "device ex_nan = Cpu" "device ex_flt = Cpu" "device ex_negz = Cpu"
  "total_size (shape ex_f0) = 1" "dtype ex_f0 = kFloat32"
  by (simp_all add: ex_nan_def ex_flt_def ex_negz_def ex_f0_def ex_f1_def ex_f2_def
      get_array_def wf_array_def in_buffer_def total_bytes_def total_size_def)

lemma holds_values_float32: "holds_values env kFloat32 buf n"
  by (simp add: holds_values_def all_valid_def T_float_def)

lemma elem_float_4:
  "elem (T_float env) [b0, b1, b2, b3] 0
     = word_of_nat (unat b0 + 256 * (unat b1 + 256 * (unat b2 + 256 * unat b3)))"
  by (simp add: elem_def slice_def T_float_def load_word_def)

lemma ex_float_bytes:
  "bytes_at ex_nan (data ex_f0) = [0, 0, 160, 127]" "bytes_at ex_nan (data ex_f1) = [0, 0, 0, 0]"
  "bytes_at ex_flt (data ex_f0) = [0, 0, 192, 63]" "bytes_at ex_flt (data ex_f1) = [0, 0, 0, 0]"
  "bytes_at ex_flt (data ex_f2) = [0, 0, 128, 63]"
  "bytes_at ex_negz (data ex_f0) = [0, 0, 0, 128]" "bytes_at ex_negz (data ex_f1) = [0, 0, 0, 0]"
  by (simp_all add: bytes_at_def ex_nan_def ex_flt_def ex_negz_def ex_f0_def ex_f1_def ex_f2_def)

lemma ex_float_elems:
  "elem (T_float env) [0, 0, 160, 127] 0 = 0x7FA00000" "elem (T_float env) [0, 0, 0, 0] 0 = 0"
  "elem (T_float env) [0, 0, 192, 63] 0 = 0x3FC00000" "elem (T_float env) [0, 0, 128, 63] 0 = 0x3F800000"
  "elem (T_float env) [0, 0, 0, 128] 0 = 0x80000000"
  by (simp_all add: elem_float_4)

text \<open>
  \<^verbatim>\<open>Add\<close> on the first two Arrays of a store like \<open>ex_nan\<close>: three \<^verbatim>\<open>float32\<close> Arrays of
  shape \<open>[1]\<close> on the CPU, with the elements \<open>x\<close> and \<open>y\<close>.
\<close>

lemma Add_one_float:
  assumes "get_array st 0 = Some ex_f0" "get_array st 1 = Some ex_f1"
    "wf_array st ex_f0" "wf_array st ex_f1" "device st = Cpu"
    "length (arrays st) = 3" "length (bufs st) = 3"
    "elem (T_float env) (bytes_at st (data ex_f0)) 0 = x"
    "elem (T_float env) (bytes_at st (data ex_f1)) 0 = y"
  shows "fst (Add env 0 1 st) = Inr 3"
    and "elem (T_float env) (bytes_at (snd (Add env 0 1 st)) (3, 0)) 0 = float_add env x y"
proof -
  note f = ex_float_facts
  have hv: "holds_values env (dtype ex_f0) (bytes_at st (data ex_f0)) (total_size (shape ex_f0))"
    "holds_values env (dtype ex_f0) (bytes_at st (data ex_f1)) (total_size (shape ex_f0))"
    by (simp_all add: f(27) holds_values_float32)
  have add: "Add env 0 1 st =
     (Inr (length (arrays st)),
      st\<lparr>bufs := bufs st @ [add_bytes env kFloat32 (bytes_at st (data ex_f0)) (bytes_at st (data ex_f1)) 1],
         arrays := arrays st @ [\<lparr>shape = shape ex_f0, is_contiguous = True, dtype = kFloat32,
                                 data = (length (bufs st), 0), offset = 0,
                                 node = Suc (length (anodes st))\<rparr>],
         anodes := anodes st @ [None, Some (length (onodes st))],
         onodes := onodes st @ [\<lparr>name = ''add'', next_nodes = [node ex_f0, node ex_f1]\<rparr>]\<rparr>)"
    using Add_ok_cpu [OF assms(1,2) f(11,10) assms(3,4,5) hv] by (simp add: f(26,27))
  show "fst (Add env 0 1 st) = Inr 3" using add assms(6) by simp
  have "bytes_at (snd (Add env 0 1 st)) (3, 0)
      = add_bytes env kFloat32 (bytes_at st (data ex_f0)) (bytes_at st (data ex_f1)) 1"
    using add assms(7) by (simp add: bytes_at_def nth_append)
  then show "elem (T_float env) (bytes_at (snd (Add env 0 1 st)) (3, 0)) 0 = float_add env x y"
    using elem_kernel_bytes [OF ctype_ok_float, of 0 1 env "c_add (T_float env)"
        "bytes_at st (data ex_f0)" "bytes_at st (data ex_f1)" "[]"] assms(8,9)
    by (simp add: add_bytes_def T_float_def [of env, THEN arg_cong [where f = c_add]])
qed

lemma ex_lengths:
  "length (arrays ex_nan) = 3" "length (bufs ex_nan) = 3"
  "length (arrays ex_negz) = 3" "length (bufs ex_negz) = 3"
  by (simp_all add: ex_nan_def ex_negz_def)

text \<open>
  On every machine with IEEE 754 arithmetic the sum of the NaN of \<open>ex_nan\<close> and zero is
  a NaN, whichever, so it does not compare equal to the NaN it came from.
\<close>

lemma nan_plus_zero_is_nan:
  assumes "ieee_fpu env"
  shows "fst (Add env 0 1 ex_nan) = Inr 3"
    and "fp_nan 24 8 (unat (elem (T_float env) (bytes_at (snd (Add env 0 1 ex_nan)) (3, 0)) 0))"
    and "\<not> same_elems env kFloat32 (bytes_at (snd (Add env 0 1 ex_nan)) (3, 0))
           (bytes_at ex_nan (data ex_f0)) (total_size (shape ex_f0))"
proof -
  note f = ex_float_facts
  note a = Add_one_float [OF f(1,2,14,15,23) ex_lengths(1,2), of env "0x7FA00000" 0]
  have e: "elem (T_float env) (bytes_at ex_nan (data ex_f0)) 0 = 0x7FA00000"
    "elem (T_float env) (bytes_at ex_nan (data ex_f1)) 0 = 0"
    by (simp_all add: ex_float_bytes ex_float_elems)
  show "fst (Add env 0 1 ex_nan) = Inr 3" by (rule a(1) [OF e])
  have "fp_nan 24 8 (fp_add 24 8 (unat (0x7FA00000 :: 32 word)) (unat (0 :: 32 word)))"
    by (simp add: fp_add_def fp_nan_def fp_exp_def fp_frac_def fp_quiet_def fp_sign_def fp_pack_def)
  with assms have "fp_nan 24 8 (unat (float_add env 0x7FA00000 0))"
    unfolding ieee_fpu_def fp_agrees_def by metis
  then show n: "fp_nan 24 8 (unat (elem (T_float env) (bytes_at (snd (Add env 0 1 ex_nan)) (3, 0)) 0))"
    by (simp only: a(2) [OF e])
  then show "\<not> same_elems env kFloat32 (bytes_at (snd (Add env 0 1 ex_nan)) (3, 0))
           (bytes_at ex_nan (data ex_f0)) (total_size (shape ex_f0))"
    by (simp add: same_elems_def f(26) fp_eq_def)
qed

text \<open>
  C7, as stated, fails on \<^verbatim>\<open>float32\<close>: for the Array whose one element is the NaN
  \<open>0x7FA00000\<close> and the zero Array, \<^verbatim>\<open>Add\<close> returns an Array whose element is the NaN
  \<open>0x7FE00000\<close>. The result is not the operand bit for bit, and it does not compare
  equal to it either, as no NaN compares equal to anything.
\<close>

theorem identity_fails_on_nan:
  "ieee_fpu ieee_env \<and> get_array ex_nan 0 = Some ex_f0 \<and> get_array ex_nan 1 = Some ex_f1 \<and>
   shape ex_f0 = shape ex_f1 \<and> dtype ex_f0 = dtype ex_f1 \<and> dtype ex_f0 = kFloat32 \<and>
   wf_array ex_nan ex_f0 \<and> wf_array ex_nan ex_f1 \<and> device ex_nan = Cpu \<and>
   zero_filled ieee_env kFloat32 (bytes_at ex_nan (data ex_f1)) (total_size (shape ex_f0)) \<and>
   fst (Add ieee_env 0 1 ex_nan) = Inr 3 \<and>
   elem (T_float ieee_env) (bytes_at ex_nan (data ex_f0)) 0 = 0x7FA00000 \<and>
   elem (T_float ieee_env) (bytes_at (snd (Add ieee_env 0 1 ex_nan)) (3, 0)) 0 = 0x7FE00000 \<and>
   \<not> identical_elems ieee_env kFloat32 (bytes_at (snd (Add ieee_env 0 1 ex_nan)) (3, 0))
        (bytes_at ex_nan (data ex_f0)) (total_size (shape ex_f0)) \<and>
   \<not> same_elems ieee_env kFloat32 (bytes_at (snd (Add ieee_env 0 1 ex_nan)) (3, 0))
        (bytes_at ex_nan (data ex_f0)) (total_size (shape ex_f0))"
proof -
  note f = ex_float_facts
  have e: "elem (T_float ieee_env) (bytes_at ex_nan (data ex_f0)) 0 = 0x7FA00000"
    "elem (T_float ieee_env) (bytes_at ex_nan (data ex_f1)) 0 = 0"
    by (simp_all add: ex_float_bytes ex_float_elems)
  note a = Add_one_float [OF f(1,2,14,15,23) ex_lengths(1,2) e]
  have z: "zero_filled ieee_env kFloat32 (bytes_at ex_nan (data ex_f1)) (total_size (shape ex_f0))"
    by (simp add: zero_filled_def f(26) e)
  have sum: "float_add ieee_env 0x7FA00000 0 = 0x7FE00000"
    by (simp add: ieee_env_def fp_add_def fp_nan_def fp_exp_def fp_frac_def fp_quiet_def
        fp_sign_def fp_pack_def)
  have r: "elem (T_float ieee_env) (bytes_at (snd (Add ieee_env 0 1 ex_nan)) (3, 0)) 0 = 0x7FE00000"
    using a(2) sum by simp
  have ni: "\<not> identical_elems ieee_env kFloat32 (bytes_at (snd (Add ieee_env 0 1 ex_nan)) (3, 0))
        (bytes_at ex_nan (data ex_f0)) (total_size (shape ex_f0))"
    using r e(1) by (simp add: identical_elems_def f(26))
  note ns = nan_plus_zero_is_nan(3) [OF ieee_fpu_ieee_env]
  from ieee_fpu_ieee_env f(1,2,10,11,27,14,15,23) z a(1) e(1) r ni ns show ?thesis
    by blast
qed

text \<open>
  C7, amended. On a machine with IEEE 754 arithmetic (a condition for \<^verbatim>\<open>float32\<close> and
  \<^verbatim>\<open>float64\<close> only) and a device that can construct the output, for every supported
  dtype and every Array \<open>a\<close> of that dtype whose buffer holds \<open>total_size\<close> elements at
  its data pointer, each a value of the dtype's C++ type (a condition on \<^verbatim>\<open>bool\<close> only)
  and none a NaN (a condition on \<^verbatim>\<open>float32\<close> and \<^verbatim>\<open>float64\<close> only):

  \<^item> \<^verbatim>\<open>Add(a, z)\<close>, with \<open>z\<close> an Array of the shape of \<open>a\<close> filled with that dtype's zero,
    returns an Array whose elements compare equal, with \<^verbatim>\<open>==\<close> of the dtype's type, to
    those of \<open>a\<close>, and are those of \<open>a\<close> bit for bit if no element of \<open>a\<close> is \<open>-0.0\<close>
    (\<open>-0.0 + 0.0\<close> is \<open>+0.0\<close>);

  \<^item> \<^verbatim>\<open>Mul(a, o)\<close>, with \<open>o\<close> filled with that dtype's one, returns an Array whose
    elements are those of \<open>a\<close> bit for bit, and so compare equal to them.
\<close>

theorem additive_multiplicative_identity:
  assumes "dtype A = kFloat32 \<or> dtype A = kFloat64 \<longrightarrow> ieee_fpu env"
    and "get_array st a = Some A" and "wf_array st A"
    and "holds_values env (dtype A) (bytes_at st (data A)) (total_size (shape A))"
    and "device st = Cpu \<or> enable_cuda env \<and> cuda_malloc_ok env (total_bytes A)"
    and "no_nan env (dtype A) (bytes_at st (data A)) (total_size (shape A))"
  shows "(get_array st z = Some Z \<and> shape A = shape Z \<and> dtype A = dtype Z \<and> wf_array st Z \<and>
          holds_values env (dtype A) (bytes_at st (data Z)) (total_size (shape A)) \<and>
          zero_filled env (dtype A) (bytes_at st (data Z)) (total_size (shape A)) \<longrightarrow>
            (\<exists>c C st'. Add env a z st = (Inr c, st') \<and> get_array st' c = Some C \<and>
               shape C = shape A \<and> dtype C = dtype A \<and>
               same_elems env (dtype A) (bytes_at st' (data C)) (bytes_at st (data A))
                 (total_size (shape A)) \<and>
               (no_neg_zero env (dtype A) (bytes_at st (data A)) (total_size (shape A)) \<longrightarrow>
                  identical_elems env (dtype A) (bytes_at st' (data C)) (bytes_at st (data A))
                    (total_size (shape A))))) \<and>
         (get_array st one = Some One \<and> shape A = shape One \<and> dtype A = dtype One \<and>
          wf_array st One \<and>
          holds_values env (dtype A) (bytes_at st (data One)) (total_size (shape A)) \<and>
          one_filled env (dtype A) (bytes_at st (data One)) (total_size (shape A)) \<longrightarrow>
            (\<exists>c C st'. Mul env a one st = (Inr c, st') \<and> get_array st' c = Some C \<and>
               shape C = shape A \<and> dtype C = dtype A \<and>
               same_elems env (dtype A) (bytes_at st' (data C)) (bytes_at st (data A))
                 (total_size (shape A)) \<and>
               identical_elems env (dtype A) (bytes_at st' (data C)) (bytes_at st (data A))
                 (total_size (shape A))))"
proof (intro conjI impI)
  assume h: "get_array st z = Some Z \<and> shape A = shape Z \<and> dtype A = dtype Z \<and> wf_array st Z \<and>
          holds_values env (dtype A) (bytes_at st (data Z)) (total_size (shape A)) \<and>
          zero_filled env (dtype A) (bytes_at st (data Z)) (total_size (shape A))"
  then have g: "get_array st z = Some Z" and s: "shape A = shape Z" and d: "dtype A = dtype Z"
    and wz: "wf_array st Z"
    and hz: "holds_values env (dtype A) (bytes_at st (data Z)) (total_size (shape A))"
    and zf: "zero_filled env (dtype A) (bytes_at st (data Z)) (total_size (shape A))" by blast+
  from Add_returns_sum [OF assms(2) g s d assms(3) wz assms(4) hz assms(5)]
  obtain c C st' where r: "Add env a z st = (Inr c, st')" "get_array st' c = Some C"
    "shape C = shape A" "dtype C = dtype A"
    "is_sum env (dtype A) (bytes_at st (data A)) (bytes_at st (data Z)) (bytes_at st' (data C))
       (total_size (shape A))"
    by blast
  from sum_zero_same [OF assms(1) r(5) zf assms(6)]
    sum_zero_identical [OF assms(1) r(5) zf assms(6)] r(1-4)
  show "\<exists>c C st'. Add env a z st = (Inr c, st') \<and> get_array st' c = Some C \<and>
               shape C = shape A \<and> dtype C = dtype A \<and>
               same_elems env (dtype A) (bytes_at st' (data C)) (bytes_at st (data A))
                 (total_size (shape A)) \<and>
               (no_neg_zero env (dtype A) (bytes_at st (data A)) (total_size (shape A)) \<longrightarrow>
                  identical_elems env (dtype A) (bytes_at st' (data C)) (bytes_at st (data A))
                    (total_size (shape A)))"
    by blast
next
  assume h: "get_array st one = Some One \<and> shape A = shape One \<and> dtype A = dtype One \<and>
          wf_array st One \<and>
          holds_values env (dtype A) (bytes_at st (data One)) (total_size (shape A)) \<and>
          one_filled env (dtype A) (bytes_at st (data One)) (total_size (shape A))"
  then have g: "get_array st one = Some One" and s: "shape A = shape One" and d: "dtype A = dtype One"
    and wz: "wf_array st One"
    and hz: "holds_values env (dtype A) (bytes_at st (data One)) (total_size (shape A))"
    and zf: "one_filled env (dtype A) (bytes_at st (data One)) (total_size (shape A))" by blast+
  from Mul_returns_product [OF assms(2) g s d assms(3) wz assms(4) hz assms(5)]
  obtain c C st' where r: "Mul env a one st = (Inr c, st')" "get_array st' c = Some C"
    "shape C = shape A" "dtype C = dtype A"
    "is_product env (dtype A) (bytes_at st (data A)) (bytes_at st (data One)) (bytes_at st' (data C))
       (total_size (shape A))"
    by blast
  note i = product_one_identical [OF assms(1) r(5) zf assms(6)]
  from i identical_same [OF i assms(6)] r(1-4)
  show "\<exists>c C st'. Mul env a one st = (Inr c, st') \<and> get_array st' c = Some C \<and>
               shape C = shape A \<and> dtype C = dtype A \<and>
               same_elems env (dtype A) (bytes_at st' (data C)) (bytes_at st (data A))
                 (total_size (shape A)) \<and>
               identical_elems env (dtype A) (bytes_at st' (data C)) (bytes_at st (data A))
                 (total_size (shape A))"
    by blast
qed

theorem additive_multiplicative_identity_witness:
  "ieee_fpu ieee_env \<and> dtype ex_f0 = kFloat32 \<and> get_array ex_flt 0 = Some ex_f0 \<and>
   wf_array ex_flt ex_f0 \<and> device ex_flt = Cpu \<and> total_size (shape ex_f0) = 1 \<and>
   holds_values ieee_env (dtype ex_f0) (bytes_at ex_flt (data ex_f0)) (total_size (shape ex_f0)) \<and>
   no_nan ieee_env (dtype ex_f0) (bytes_at ex_flt (data ex_f0)) (total_size (shape ex_f0)) \<and>
   no_neg_zero ieee_env (dtype ex_f0) (bytes_at ex_flt (data ex_f0)) (total_size (shape ex_f0)) \<and>
   get_array ex_flt 1 = Some ex_f1 \<and> shape ex_f0 = shape ex_f1 \<and> dtype ex_f0 = dtype ex_f1 \<and>
   wf_array ex_flt ex_f1 \<and>
   holds_values ieee_env (dtype ex_f0) (bytes_at ex_flt (data ex_f1)) (total_size (shape ex_f0)) \<and>
   zero_filled ieee_env (dtype ex_f0) (bytes_at ex_flt (data ex_f1)) (total_size (shape ex_f0)) \<and>
   get_array ex_flt 2 = Some ex_f2 \<and> shape ex_f0 = shape ex_f2 \<and> dtype ex_f0 = dtype ex_f2 \<and>
   wf_array ex_flt ex_f2 \<and>
   holds_values ieee_env (dtype ex_f0) (bytes_at ex_flt (data ex_f2)) (total_size (shape ex_f0)) \<and>
   one_filled ieee_env (dtype ex_f0) (bytes_at ex_flt (data ex_f2)) (total_size (shape ex_f0)) \<and>
   (\<exists>c C st'. Add ieee_env 0 1 ex_flt = (Inr c, st') \<and> get_array st' c = Some C \<and>
      shape C = shape ex_f0 \<and> dtype C = dtype ex_f0 \<and>
      same_elems ieee_env (dtype ex_f0) (bytes_at st' (data C)) (bytes_at ex_flt (data ex_f0))
        (total_size (shape ex_f0)) \<and>
      identical_elems ieee_env (dtype ex_f0) (bytes_at st' (data C)) (bytes_at ex_flt (data ex_f0))
        (total_size (shape ex_f0))) \<and>
   (\<exists>c C st'. Mul ieee_env 0 2 ex_flt = (Inr c, st') \<and> get_array st' c = Some C \<and>
      shape C = shape ex_f0 \<and> dtype C = dtype ex_f0 \<and>
      same_elems ieee_env (dtype ex_f0) (bytes_at st' (data C)) (bytes_at ex_flt (data ex_f0))
        (total_size (shape ex_f0)) \<and>
      identical_elems ieee_env (dtype ex_f0) (bytes_at st' (data C)) (bytes_at ex_flt (data ex_f0))
        (total_size (shape ex_f0))) \<and>
   get_array ex_negz 0 = Some ex_f0 \<and> get_array ex_negz 1 = Some ex_f1 \<and>
   wf_array ex_negz ex_f0 \<and> wf_array ex_negz ex_f1 \<and> device ex_negz = Cpu \<and>
   no_nan ieee_env (dtype ex_f0) (bytes_at ex_negz (data ex_f0)) (total_size (shape ex_f0)) \<and>
   zero_filled ieee_env (dtype ex_f0) (bytes_at ex_negz (data ex_f1)) (total_size (shape ex_f0)) \<and>
   elem (T_float ieee_env) (bytes_at ex_negz (data ex_f0)) 0 = 0x80000000 \<and>
   (\<exists>c C st'. Add ieee_env 0 1 ex_negz = (Inr c, st') \<and> get_array st' c = Some C \<and>
      same_elems ieee_env (dtype ex_f0) (bytes_at st' (data C)) (bytes_at ex_negz (data ex_f0))
        (total_size (shape ex_f0))) \<and>
   elem (T_float ieee_env) (bytes_at (snd (Add ieee_env 0 1 ex_negz)) (3, 0)) 0 = 0"
proof -
  note f = ex_float_facts
  note i = ieee_fpu_ieee_env
  have hv: "holds_values ieee_env (dtype ex_f0) buf (total_size (shape ex_f0))" for buf
    by (simp add: f(27) holds_values_float32)
  have nn: "no_nan ieee_env (dtype ex_f0) (bytes_at ex_flt (data ex_f0)) (total_size (shape ex_f0))"
    "no_nan ieee_env (dtype ex_f0) (bytes_at ex_negz (data ex_f0)) (total_size (shape ex_f0))"
    by (simp_all add: no_nan_def f(26,27) ex_float_bytes ex_float_elems fp_nan_def fp_exp_def fp_frac_def)
  have nz: "no_neg_zero ieee_env (dtype ex_f0) (bytes_at ex_flt (data ex_f0)) (total_size (shape ex_f0))"
    by (simp add: no_neg_zero_def f(26,27) ex_float_bytes ex_float_elems)
  have zf: "zero_filled ieee_env (dtype ex_f0) (bytes_at ex_flt (data ex_f1)) (total_size (shape ex_f0))"
    "zero_filled ieee_env (dtype ex_f0) (bytes_at ex_negz (data ex_f1)) (total_size (shape ex_f0))"
    by (simp_all add: zero_filled_def f(26,27) ex_float_bytes ex_float_elems)
  have onf: "one_filled ieee_env (dtype ex_f0) (bytes_at ex_flt (data ex_f2)) (total_size (shape ex_f0))"
    by (simp add: one_filled_def f(26,27) ex_float_bytes ex_float_elems)
  have ii: "dtype ex_f0 = kFloat32 \<or> dtype ex_f0 = kFloat64 \<longrightarrow> ieee_fpu ieee_env"
    using i by simp
  have d: "device ex_flt = Cpu \<or> enable_cuda ieee_env \<and> cuda_malloc_ok ieee_env (total_bytes ex_f0)"
    "device ex_negz = Cpu \<or> enable_cuda ieee_env \<and> cuda_malloc_ok ieee_env (total_bytes ex_f0)"
    using f(24,25) by simp_all
  have e: "elem (T_float ieee_env) (bytes_at ex_negz (data ex_f0)) 0 = 0x80000000"
    "elem (T_float ieee_env) (bytes_at ex_negz (data ex_f1)) 0 = 0"
    by (simp_all add: ex_float_bytes ex_float_elems)
  have "\<not> fp_nan 24 8 (unat (0x80000000 :: 32 word))" "fp_zero 24 8 (unat (0x80000000 :: 32 word))"
    by (simp_all add: fp_nan_def fp_zero_def fp_exp_def fp_frac_def)
  with machine_add_zero [of 24 8 "float_add ieee_env" "0x80000000"] i
  have sum: "float_add ieee_env 0x80000000 0 = 0" by (simp add: ieee_fpu_def)
  have r: "elem (T_float ieee_env) (bytes_at (snd (Add ieee_env 0 1 ex_negz)) (3, 0)) 0 = 0"
    using Add_one_float(2) [OF f(7,8,20,21,25) ex_lengths(3,4) e] sum by simp
  note t = additive_multiplicative_identity [OF ii f(4) f(17) hv d(1) nn(1), of 1 ex_f1 2 ex_f2]
  from t f(5,10,11,18) hv zf(1) nz
  have 1: "\<exists>c C st'. Add ieee_env 0 1 ex_flt = (Inr c, st') \<and> get_array st' c = Some C \<and>
      shape C = shape ex_f0 \<and> dtype C = dtype ex_f0 \<and>
      same_elems ieee_env (dtype ex_f0) (bytes_at st' (data C)) (bytes_at ex_flt (data ex_f0))
        (total_size (shape ex_f0)) \<and>
      identical_elems ieee_env (dtype ex_f0) (bytes_at st' (data C)) (bytes_at ex_flt (data ex_f0))
        (total_size (shape ex_f0))"
    by blast
  from t f(6,12,13,19) hv onf
  have 2: "\<exists>c C st'. Mul ieee_env 0 2 ex_flt = (Inr c, st') \<and> get_array st' c = Some C \<and>
      shape C = shape ex_f0 \<and> dtype C = dtype ex_f0 \<and>
      same_elems ieee_env (dtype ex_f0) (bytes_at st' (data C)) (bytes_at ex_flt (data ex_f0))
        (total_size (shape ex_f0)) \<and>
      identical_elems ieee_env (dtype ex_f0) (bytes_at st' (data C)) (bytes_at ex_flt (data ex_f0))
        (total_size (shape ex_f0))"
    by blast
  from additive_multiplicative_identity [OF ii f(7) f(20) hv d(2) nn(2), of 1 ex_f1 2 ex_f2]
    f(8,10,11,21) hv zf(2)
  have 3: "\<exists>c C st'. Add ieee_env 0 1 ex_negz = (Inr c, st') \<and> get_array st' c = Some C \<and>
      same_elems ieee_env (dtype ex_f0) (bytes_at st' (data C)) (bytes_at ex_negz (data ex_f0))
        (total_size (shape ex_f0))"
    by blast
  from i f hv nn nz zf onf 1 2 e(1) 3 r show ?thesis by blast
qed

end
